
theory Spec2Isabelle
  imports Main "HOL-Library.Word" "HOL-Library.Multiset"
begin

unbundle bit_operations_syntax

section \<open>Data of the annotation file\<close>

text \<open>
  The parsed annotation file of \<^verbatim>\<open>label_coco_to_img_and_split.py\<close>: three lists of
  JSON objects. Ids, heights and widths are Python integers; a polygon is the flat
  coordinate list \<^verbatim>\<open>[x0, y0, x1, y1, ...]\<close>. A coordinate is a Python integer. A
  coordinate written as a float whose truncation fits 32 bits stands here as the integer
  that \<^verbatim>\<open>np.array(segmentation, dtype=np.int32)\<close> truncates it to; a float beyond that
  range, which numpy casts without a defined result, is not an input of the model.
\<close>

record image =
  img_id :: int
  file_name :: string
  height :: int
  width :: int

record category =
  cat_id :: int
  name :: string

record annotation =
  image_id :: int
  category_id :: int
  segmentation :: "int list list"

record coco_data =
  images :: "image list"
  categories :: "category list"
  annotations :: "annotation list"

text \<open>
  The exceptions the script can raise on such data: a missing dictionary key or a
  \<^verbatim>\<open>pop\<close> from an empty set (\<open>KeyError\<close>), a negative array dimension or an impossible
  \<^verbatim>\<open>reshape\<close> (\<open>ValueError\<close>), an integer that does not fit \<^verbatim>\<open>np.int32\<close>
  (\<open>OverflowError\<close>), a missing source image (\<open>FileNotFoundError\<close>) and a failed OpenCV
  assertion (\<open>Cv2Error\<close>, Python's \<^verbatim>\<open>cv2.error\<close>).
\<close>

datatype error = KeyError | ValueError | OverflowError | FileNotFoundError | Cv2Error

text \<open>A \<^verbatim>\<open>for\<close> loop whose body may raise: the first exception ends the loop.\<close>

fun for_each :: "('s \<Rightarrow> 'a \<Rightarrow> error + 's) \<Rightarrow> 'a list \<Rightarrow> 's \<Rightarrow> error + 's" where
  "for_each body [] s = Inr s"
| "for_each body (x # xs) s =
     (case body s x of Inl e \<Rightarrow> Inl e | Inr s' \<Rightarrow> for_each body xs s')"

section \<open>Masks\<close>

text \<open>
  A mask is a two-dimensional \<^verbatim>\<open>np.uint8\<close> array, kept as the list of its rows.
\<close>

type_synonym mask = "8 word list list"

definition mask_shape :: "nat \<Rightarrow> nat \<Rightarrow> mask \<Rightarrow> bool" where
  "mask_shape h w m \<longleftrightarrow> map length m = replicate h w"

definition binary :: "mask \<Rightarrow> bool" where
  "binary m \<longleftrightarrow> (\<forall>row \<in> set m. \<forall>v \<in> set row. v = 0 \<or> v = 1)"

text \<open>\<^verbatim>\<open>np.zeros((height, width), dtype=np.uint8)\<close> refuses a negative dimension.\<close>

definition zeros :: "int \<Rightarrow> int \<Rightarrow> error + mask" where
  "zeros h w =
     (if h < 0 \<or> w < 0 then Inl ValueError
      else Inr (replicate (nat h) (replicate (nat w) 0)))"

text \<open>
  \<^verbatim>\<open>np.array(segmentation, dtype=np.int32)\<close> on a list of Python integers: numpy refuses
  an integer outside the range of \<^verbatim>\<open>int32\<close>; the others keep their values.
\<close>

definition int32_array :: "int list \<Rightarrow> error + int list" where
  "int32_array xs =
     (if \<forall>x \<in> set xs. - (2 ^ 31) \<le> x \<and> x < 2 ^ 31 then Inr xs else Inl OverflowError)"

text \<open>
  \<^verbatim>\<open>.reshape((-1, 2))\<close> of a one-dimensional array: the vertices \<open>(x, y)\<close>, and a
  \<open>ValueError\<close> when the number of coordinates is odd.
\<close>

fun pairs :: "int list \<Rightarrow> (int \<times> int) list" where
  "pairs (x # y # rest) = (x, y) # pairs rest"
| "pairs _ = []"

definition reshape2 :: "int list \<Rightarrow> error + (int \<times> int) list" where
  "reshape2 flat = (if even (length flat) then Inr (pairs flat) else Inl ValueError)"

text \<open>
  \<^verbatim>\<open>cv2.fillPoly(mask, [poly], 1)\<close> belongs to OpenCV, not to the script. It raises
  \<^verbatim>\<open>cv2.error\<close> on a polygon without vertices and on a mask without rows. Where it
  returns, it has written the colour into every pixel of the region it fills for the
  polygon, clipped to the mask, and left every other pixel as it was. What else OpenCV
  refuses, and which pixels the region holds, are the two parameters of the model, both
  given the numbers of rows and columns of the mask and the vertices:
  \<open>rejects fl rows cols poly\<close> says that OpenCV raises, and \<open>covered fl rows cols poly x y\<close>
  that the pixel of column \<open>x\<close> and row \<open>y\<close> is filled.
\<close>

record fill =
  rejects :: "nat \<Rightarrow> nat \<Rightarrow> (int \<times> int) list \<Rightarrow> bool"
  covered :: "nat \<Rightarrow> nat \<Rightarrow> (int \<times> int) list \<Rightarrow> nat \<Rightarrow> nat \<Rightarrow> bool"

definition fillPoly :: "fill \<Rightarrow> mask \<Rightarrow> (int \<times> int) list \<Rightarrow> 8 word \<Rightarrow> error + mask" where
  "fillPoly fl img poly color =
     (let rows = length img;
          cols = (case img of [] \<Rightarrow> 0 | row # _ \<Rightarrow> length row)
      in if poly = [] \<or> rows = 0 \<or> rejects fl rows cols poly then Inl Cv2Error
         else
           Inr (map (\<lambda>(y, row).
                       map (\<lambda>(x, v). if covered fl rows cols poly x y then color else v)
                         (enumerate 0 row))
                  (enumerate 0 img)))"

definition create_binary_mask :: "fill \<Rightarrow> int list \<Rightarrow> int \<Rightarrow> int \<Rightarrow> error + mask" where
  "create_binary_mask fl segm h w =
     (case zeros h w of
        Inl e \<Rightarrow> Inl e
      | Inr img \<Rightarrow>
          (case int32_array segm of
             Inl e \<Rightarrow> Inl e
           | Inr arr \<Rightarrow>
               (case reshape2 arr of
                  Inl e \<Rightarrow> Inl e
                | Inr poly \<Rightarrow> fillPoly fl img poly 1)))"

text \<open>
  \<^verbatim>\<open>cv2.bitwise_or(a, b)\<close>: the cell-wise OR of two arrays of one size; OpenCV rejects
  operands of different sizes.
\<close>

definition or_masks :: "mask \<Rightarrow> mask \<Rightarrow> mask" where
  "or_masks a b = map2 (map2 (OR)) a b"

definition bitwise_or :: "mask \<Rightarrow> mask \<Rightarrow> error + mask" where
  "bitwise_or a b =
     (if map length a = map length b then Inr (or_masks a b) else Inl Cv2Error)"

text \<open>
  The accumulation of lines 88 to 93: starting from the zero mask, every polygon of every
  annotation is rasterised and OR-ed into the running mask.
\<close>

definition add_segmentation :: "fill \<Rightarrow> int \<Rightarrow> int \<Rightarrow> mask \<Rightarrow> int list \<Rightarrow> error + mask" where
  "add_segmentation fl h w combined segm =
     (case create_binary_mask fl segm h w of
        Inl e \<Rightarrow> Inl e
      | Inr img \<Rightarrow> bitwise_or combined img)"

definition combined_mask :: "fill \<Rightarrow> int \<Rightarrow> int \<Rightarrow> annotation list \<Rightarrow> error + mask" where
  "combined_mask fl h w anns =
     (case zeros h w of
        Inl e \<Rightarrow> Inl e
      | Inr z \<Rightarrow>
          for_each (\<lambda>acc ann. for_each (add_segmentation fl h w) (segmentation ann) acc)
            anns z)"

text \<open>
  The same accumulation over masks that are already rasterised: the loop of
  \<^verbatim>\<open>combined_mask = cv2.bitwise_or(combined_mask, mask)\<close> alone.
\<close>

definition accumulate :: "mask \<Rightarrow> mask list \<Rightarrow> error + mask" where
  "accumulate seed masks = for_each bitwise_or masks seed"

text \<open>\<^verbatim>\<open>combined_mask * 255\<close>, in \<^verbatim>\<open>uint8\<close> arithmetic.\<close>

definition times255 :: "mask \<Rightarrow> mask" where
  "times255 m = map (map (\<lambda>v. v * 255)) m"

section \<open>Paths\<close>

text \<open>\<^verbatim>\<open>os.path.join\<close> of two components and the root of \<^verbatim>\<open>os.path.splitext\<close> (POSIX).\<close>

definition path_join :: "string \<Rightarrow> string \<Rightarrow> string" where
  "path_join a b =
     (if b \<noteq> [] \<and> hd b = CHR ''/'' then b
      else if a = [] \<or> last a = CHR ''/'' then a @ b
      else a @ ''/'' @ b)"

definition rfind :: "char \<Rightarrow> string \<Rightarrow> int" where
  "rfind c p =
     (case filter (\<lambda>i. p ! i = c) (rev [0..<length p]) of [] \<Rightarrow> - 1 | i # _ \<Rightarrow> int i)"

definition splitext_root :: "string \<Rightarrow> string" where
  "splitext_root p =
     (let sepIndex = rfind CHR ''/'' p; dotIndex = rfind CHR ''.'' p
      in if dotIndex > sepIndex \<and>
            (\<exists>c \<in> set (drop (nat (sepIndex + 1)) (take (nat dotIndex) p)). c \<noteq> CHR ''.'')
         then take (nat dotIndex) p else p)"

section \<open>The lookup tables and the annotation index\<close>

text \<open>
  A dictionary comprehension stores the records in order, so a later record with a key
  already present replaces the earlier value.
\<close>

definition image_id_to_file :: "image list \<Rightarrow> int \<rightharpoonup> string" where
  "image_id_to_file imgs = fold (\<lambda>img m. m(img_id img \<mapsto> file_name img)) imgs Map.empty"

definition image_id_to_size :: "image list \<Rightarrow> int \<rightharpoonup> int \<times> int" where
  "image_id_to_size imgs =
     fold (\<lambda>img m. m(img_id img \<mapsto> (height img, width img))) imgs Map.empty"

definition category_map :: "category list \<Rightarrow> int \<rightharpoonup> string" where
  "category_map cats = fold (\<lambda>cat m. m(cat_id cat \<mapsto> name cat)) cats Map.empty"

text \<open>
  \<^verbatim>\<open>image_annotations\<close> is iterated later, in insertion order, so it is an association
  list: a new image id is appended with an empty list, then the annotation is appended
  to the list of its image id.
\<close>

type_synonym index = "(int \<times> annotation list) list"

definition add_annotation :: "index \<Rightarrow> annotation \<Rightarrow> index" where
  "add_annotation d ann =
     (let k = image_id ann;
          d' = (if k \<notin> set (map fst d) then d @ [(k, [])] else d)
      in map (\<lambda>(k', v). if k' = k then (k', v @ [ann]) else (k', v)) d')"

definition image_annotations :: "annotation list \<Rightarrow> index" where
  "image_annotations anns = foldl add_annotation [] anns"

section \<open>The run\<close>

text \<open>
  What a run leaves behind: the dictionary \<^verbatim>\<open>class_counts\<close> (a \<^verbatim>\<open>defaultdict(int)\<close>) and,
  in order, its calls of \<^verbatim>\<open>os.makedirs\<close>, \<^verbatim>\<open>shutil.copy2\<close>, \<^verbatim>\<open>cv2.imwrite\<close> and
  \<^verbatim>\<open>print\<close>.
\<close>

datatype effect =
  MakeDirs string
| Copy2 string string
| ImWrite string mask
| Print string

record state =
  class_counts :: "string \<rightharpoonup> nat"
  trace :: "effect list"

text \<open>\<^verbatim>\<open>class_counts[k] += 1\<close> on a \<^verbatim>\<open>defaultdict(int)\<close>, and reading a count.\<close>

definition incr :: "(string \<rightharpoonup> nat) \<Rightarrow> string \<Rightarrow> (string \<rightharpoonup> nat)" where
  "incr m k = m(k \<mapsto> (case m k of None \<Rightarrow> 1 | Some c \<Rightarrow> c + 1))"

definition count_of :: "(string \<rightharpoonup> nat) \<Rightarrow> string \<Rightarrow> nat" where
  "count_of m k = (case m k of None \<Rightarrow> 0 | Some c \<Rightarrow> c)"

text \<open>
  \<^verbatim>\<open>shutil.copy2\<close> fails when the source file does not exist; \<open>present\<close> says which
  paths exist. \<^verbatim>\<open>cv2.imwrite\<close> asserts that the image is not empty. Other failures of
  the file system (permissions, a full disk) are left out.
\<close>

definition copy2 :: "(string \<Rightarrow> bool) \<Rightarrow> string \<Rightarrow> string \<Rightarrow> error + effect" where
  "copy2 present src dst = (if present src then Inr (Copy2 src dst) else Inl FileNotFoundError)"

definition imwrite :: "string \<Rightarrow> mask \<Rightarrow> error + effect" where
  "imwrite path img =
     (if img = [] \<or> hd img = [] then Inl Cv2Error else Inr (ImWrite path img))"

text \<open>Lines 47 to 54: the body of the loop over the image records.\<close>

definition move_unlabeled ::
  "(string \<Rightarrow> bool) \<Rightarrow> string \<Rightarrow> string \<Rightarrow> index \<Rightarrow> state \<Rightarrow> image \<Rightarrow> error + state" where
  "move_unlabeled present images_dir clean_dir idx st img =
     (if img_id img \<notin> set (map fst idx) then
        (let image_filename = file_name img;
             src_image_path = path_join images_dir image_filename;
             dst_image_path = path_join clean_dir image_filename
         in case copy2 present src_image_path dst_image_path of
              Inl e \<Rightarrow> Inl e
            | Inr cp \<Rightarrow>
                Inr (st\<lparr>class_counts := incr (class_counts st) ''clean'',
                        trace := trace st @
                          [cp, Print (''Moved unlabeled image '' @ image_filename @
                                      '' to clean directory'')]\<rparr>))
      else Inr st)"

text \<open>
  Lines 57 to 100: the body of the loop over the annotation index. The Python set
  \<^verbatim>\<open>category_ids\<close> is the list of the distinct category ids; \<^verbatim>\<open>pop\<close> is only reached
  when it has at most one element.
\<close>

definition process_image ::
  "fill \<Rightarrow> (string \<Rightarrow> bool) \<Rightarrow> (int \<rightharpoonup> string) \<Rightarrow> (int \<rightharpoonup> int \<times> int) \<Rightarrow> (int \<rightharpoonup> string) \<Rightarrow>
   string \<Rightarrow> string \<Rightarrow> state \<Rightarrow> int \<times> annotation list \<Rightarrow> error + state" where
  "process_image fl present id_to_file id_to_size cat_map images_dir output_base_dir st entry =
     (let iid = fst entry; anns = snd entry;
          category_ids = remdups (map category_id anns)
      in if length category_ids > 1 then
           (case id_to_file iid of
              None \<Rightarrow> Inl KeyError
            | Some fn \<Rightarrow>
                Inr (st\<lparr>trace := trace st @
                          [Print (''Skipping image '' @ fn @ '' - multiple classes detected'')]\<rparr>))
         else
           (case category_ids of
              [] \<Rightarrow> Inl KeyError
            | cid # _ \<Rightarrow>
           (case cat_map cid of
              None \<Rightarrow> Inl KeyError
            | Some category_name \<Rightarrow>
           (let class_dir = path_join output_base_dir category_name;
                images_dir_dest = path_join class_dir ''images'';
                masks_dir = path_join class_dir ''masks''
            in case id_to_file iid of
              None \<Rightarrow> Inl KeyError
            | Some image_filename \<Rightarrow>
           (let src_image_path = path_join images_dir image_filename;
                dst_image_path = path_join images_dir_dest image_filename
            in case copy2 present src_image_path dst_image_path of
              Inl e \<Rightarrow> Inl e
            | Inr cp \<Rightarrow>
           (case id_to_size iid of
              None \<Rightarrow> Inl KeyError
            | Some (h, w) \<Rightarrow>
           (case combined_mask fl h w anns of
              Inl e \<Rightarrow> Inl e
            | Inr m \<Rightarrow>
           (let mask_filename = splitext_root image_filename @ ''.png'';
                mask_path = path_join masks_dir mask_filename
            in case imwrite mask_path (times255 m) of
              Inl e \<Rightarrow> Inl e
            | Inr wr \<Rightarrow>
                Inr (st\<lparr>class_counts := incr (class_counts st) category_name,
                        trace := trace st @
                          [MakeDirs images_dir_dest, MakeDirs masks_dir, cp, wr,
                           Print (''Processed '' @ image_filename @ '' for class '' @
                                  category_name)]\<rparr>)))))))))"

text \<open>
  \<^verbatim>\<open>process_coco_dataset\<close> on the parsed file. An exception leaves the function, and with
  it the local \<^verbatim>\<open>class_counts\<close>: the result is then the exception alone. The summary
  printed at the end renders \<^verbatim>\<open>class_counts\<close> and changes nothing, so the run ends with
  the state after the second loop.
\<close>

definition process_coco_dataset ::
  "fill \<Rightarrow> (string \<Rightarrow> bool) \<Rightarrow> coco_data \<Rightarrow> string \<Rightarrow> string \<Rightarrow> error + state" where
  "process_coco_dataset fl present coco images_dir output_base_dir =
     (let id_to_file = image_id_to_file (images coco);
          id_to_size = image_id_to_size (images coco);
          cat_map = category_map (categories coco);
          idx = image_annotations (annotations coco);
          clean_dir = path_join output_base_dir ''clean'';
          st0 = \<lparr>class_counts = Map.empty, trace = [MakeDirs clean_dir]\<rparr>
      in case for_each (move_unlabeled present images_dir clean_dir idx) (images coco) st0 of
           Inl e \<Rightarrow> Inl e
         | Inr st1 \<Rightarrow>
             for_each
               (process_image fl present id_to_file id_to_size cat_map images_dir
                  output_base_dir)
               idx st1)"

section \<open>Observations on a run\<close>

text \<open>
  The image records that the first loop moves, and the class under which the second loop
  counts an index entry: the name of its category when its annotations carry exactly one
  category id and that id has a name.
\<close>

definition unlabeled_images :: "coco_data \<Rightarrow> image list" where
  "unlabeled_images coco =
     filter (\<lambda>img. img_id img \<notin> set (map fst (image_annotations (annotations coco))))
       (images coco)"

definition assigned_class :: "(int \<rightharpoonup> string) \<Rightarrow> annotation list \<Rightarrow> string option" where
  "assigned_class cat_map anns =
     (case remdups (map category_id anns) of [cid] \<Rightarrow> cat_map cid | _ \<Rightarrow> None)"

text \<open>The effects of one pass through a loop body, by the branch taken.\<close>

definition unlabeled_effects :: "string \<Rightarrow> string \<Rightarrow> image \<Rightarrow> effect list" where
  "unlabeled_effects images_dir clean_dir img =
     [Copy2 (path_join images_dir (file_name img)) (path_join clean_dir (file_name img)),
      Print (''Moved unlabeled image '' @ file_name img @ '' to clean directory'')]"

definition skip_effects :: "string \<Rightarrow> effect list" where
  "skip_effects fn = [Print (''Skipping image '' @ fn @ '' - multiple classes detected'')]"

definition assign_effects :: "string \<Rightarrow> string \<Rightarrow> string \<Rightarrow> string \<Rightarrow> mask \<Rightarrow> effect list" where
  "assign_effects images_dir output_base_dir category_name image_filename m =
     [MakeDirs (path_join (path_join output_base_dir category_name) ''images''),
      MakeDirs (path_join (path_join output_base_dir category_name) ''masks''),
      Copy2 (path_join images_dir image_filename)
        (path_join (path_join (path_join output_base_dir category_name) ''images'')
           image_filename),
      ImWrite
        (path_join (path_join (path_join output_base_dir category_name) ''masks'')
           (splitext_root image_filename @ ''.png''))
        (times255 m),
      Print (''Processed '' @ image_filename @ '' for class '' @ category_name)]"

text \<open>
  The effects that the body of the second loop adds for an index entry: what it appends
  to an empty trace (nothing when it raises).
\<close>

definition image_effects ::
  "fill \<Rightarrow> (string \<Rightarrow> bool) \<Rightarrow> coco_data \<Rightarrow> string \<Rightarrow> string \<Rightarrow> int \<times> annotation list \<Rightarrow>
   effect list" where
  "image_effects fl present coco images_dir output_base_dir entry =
     (case process_image fl present (image_id_to_file (images coco))
             (image_id_to_size (images coco)) (category_map (categories coco))
             images_dir output_base_dir \<lparr>class_counts = Map.empty, trace = []\<rparr> entry of
        Inl e \<Rightarrow> []
      | Inr st \<Rightarrow> trace st)"

section \<open>Sample inputs\<close>

text \<open>
  A fill to run the script on: it refuses nothing more, and fills the pixels at the
  vertices of the polygon. For the one-point polygon \<^verbatim>\<open>[0, 0]\<close> and the two-point
  polygon \<^verbatim>\<open>[0, 0, 1, 1]\<close> these are the pixels that OpenCV draws.
\<close>

definition vertex_fill :: fill where
  "vertex_fill =
     \<lparr>rejects = (\<lambda>rows cols poly. False),
      covered = (\<lambda>rows cols poly x y. (int x, int y) \<in> set poly)\<rparr>"

text \<open>
  Image 1 carries two annotations of category 1, image 2 none, image 3 annotations of two
  categories, image 4 one annotation of the category named \<^verbatim>\<open>clean\<close>.
\<close>

definition sample_coco :: coco_data where
  "sample_coco =
     \<lparr>images =
        [\<lparr>img_id = 1, file_name = ''a.jpg'', height = 2, width = 2\<rparr>,
         \<lparr>img_id = 2, file_name = ''b.jpg'', height = 1, width = 1\<rparr>,
         \<lparr>img_id = 3, file_name = ''c.jpg'', height = 2, width = 2\<rparr>,
         \<lparr>img_id = 4, file_name = ''d.jpg'', height = 1, width = 1\<rparr>],
      categories = [\<lparr>cat_id = 1, name = ''cat''\<rparr>, \<lparr>cat_id = 2, name = ''clean''\<rparr>],
      annotations =
        [\<lparr>image_id = 1, category_id = 1, segmentation = [[0, 0, 1, 1]]\<rparr>,
         \<lparr>image_id = 3, category_id = 1, segmentation = [[0, 0, 1, 0, 1, 1]]\<rparr>,
         \<lparr>image_id = 1, category_id = 1, segmentation = [[1, 0, 1, 0], [0, 0]]\<rparr>,
         \<lparr>image_id = 3, category_id = 2, segmentation = []\<rparr>,
         \<lparr>image_id = 4, category_id = 2, segmentation = [[0, 0, 0, 0]]\<rparr>]\<rparr>"

text \<open>
  An input with a repeated image id, a repeated category id and, on an image of two
  categories, an annotation of a category id that no category record has.
\<close>

definition duplicate_coco :: coco_data where
  "duplicate_coco =
     \<lparr>images =
        [\<lparr>img_id = 1, file_name = ''a.jpg'', height = 1, width = 1\<rparr>,
         \<lparr>img_id = 1, file_name = ''b.jpg'', height = 1, width = 1\<rparr>,
         \<lparr>img_id = 2, file_name = ''c.jpg'', height = 1, width = 1\<rparr>],
      categories = [\<lparr>cat_id = 1, name = ''cat''\<rparr>, \<lparr>cat_id = 1, name = ''dog''\<rparr>],
      annotations =
        [\<lparr>image_id = 1, category_id = 1, segmentation = [[0, 0]]\<rparr>,
         \<lparr>image_id = 2, category_id = 1, segmentation = []\<rparr>,
         \<lparr>image_id = 2, category_id = 7, segmentation = []\<rparr>]\<rparr>"

text \<open>An input whose only annotation names a category id without a category record.\<close>

definition dangling_coco :: coco_data where
  "dangling_coco =
     \<lparr>images = [\<lparr>img_id = 1, file_name = ''a.jpg'', height = 1, width = 1\<rparr>],
      categories = [\<lparr>cat_id = 1, name = ''cat''\<rparr>],
      annotations = [\<lparr>image_id = 1, category_id = 7, segmentation = [[0, 0]]\<rparr>]\<rparr>"

text \<open>An input whose only polygon has an odd number of coordinates.\<close>

definition odd_coco :: coco_data where
  "odd_coco =
     \<lparr>images = [\<lparr>img_id = 1, file_name = ''a.jpg'', height = 1, width = 1\<rparr>],
      categories = [\<lparr>cat_id = 1, name = ''cat''\<rparr>],
      annotations = [\<lparr>image_id = 1, category_id = 1, segmentation = [[0, 0, 1]]\<rparr>]\<rparr>"

section \<open>Loops and masks: auxiliary facts\<close>

lemma for_each_append:
  "for_each body (xs @ ys) s =
     (case for_each body xs s of Inl e \<Rightarrow> Inl e | Inr s' \<Rightarrow> for_each body ys s')"
  by (induction xs arbitrary: s) (auto split: sum.splits)

lemma fillPoly_Inr:
  "fillPoly c img p v = Inr m \<longleftrightarrow>
     p \<noteq> [] \<and> img \<noteq> [] \<and> \<not> rejects c (length img) (length (hd img)) p \<and>
     m = map (\<lambda>(y, row).
                map (\<lambda>(x, u). if covered c (length img) (length (hd img)) p x y then v else u)
                  (enumerate 0 row))
           (enumerate 0 img)"
  by (cases img) (auto simp: fillPoly_def Let_def)

lemma length_fillPoly:
  assumes "fillPoly c img p v = Inr m"
  shows "map length m = map length img"
  using assms unfolding fillPoly_Inr
  by (intro nth_equalityI) (simp_all add: nth_enumerate_eq)

lemma nth_fillPoly:
  assumes "fillPoly c img p v = Inr m" "y < length img" "x < length (img ! y)"
  shows "m ! y ! x =
           (if covered c (length img) (length (hd img)) p x y then v else img ! y ! x)"
  using assms unfolding fillPoly_Inr by (simp add: nth_enumerate_eq)

lemma map_length_or_masks:
  "map length a = map length b \<Longrightarrow> map length (or_masks a b) = map length a"
proof (induction a arbitrary: b)
  case Nil
  then show ?case by (simp add: or_masks_def)
next
  case (Cons r a)
  then obtain r' b' where b: "b = r' # b'" by (cases b) auto
  with Cons show ?case by (simp add: or_masks_def)
qed

lemma nth_or_masks:
  assumes "map length a = map length b" "y < length a" "x < length (a ! y)"
  shows "or_masks a b ! y ! x = (a ! y ! x) OR (b ! y ! x)"
proof -
  have l: "length a = length b" using assms(1) by (metis length_map)
  have "length (a ! y) = length (b ! y)"
    using assms(1,2) l by (metis nth_map)
  then show ?thesis using assms l by (simp add: or_masks_def)
qed

lemma map2_left_commute:
  assumes "\<And>a x y. f (f a x) y = f (f a y) x"
  shows "map2 f (map2 f a x) y = map2 f (map2 f a y) x"
proof (induction a arbitrary: x y)
  case Nil
  then show ?case by simp
next
  case (Cons r a)
  show ?case
  proof (cases x)
    case Nil
    then show ?thesis by simp
  next
    case xc: (Cons x1 xs)
    show ?thesis
    proof (cases y)
      case Nil
      then show ?thesis by simp
    next
      case yc: (Cons y1 ys)
      show ?thesis using xc yc Cons.IH assms by simp
    qed
  qed
qed

lemma or_masks_left_commute: "or_masks (or_masks a x) y = or_masks (or_masks a y) x"
  unfolding or_masks_def
proof (rule map2_left_commute)
  fix a x y :: "8 word list"
  show "map2 (OR) (map2 (OR) a x) y = map2 (OR) (map2 (OR) a y) x"
    by (rule map2_left_commute) (simp add: ac_simps)
qed


lemma zeros_Inr:
  "zeros h w = Inr z \<longleftrightarrow> 0 \<le> h \<and> 0 \<le> w \<and> z = replicate (nat h) (replicate (nat w) 0)"
  by (auto simp: zeros_def)

lemma int32_array_Inr:
  "int32_array xs = Inr ys \<longleftrightarrow> (\<forall>x \<in> set xs. - (2 ^ 31) \<le> x \<and> x < 2 ^ 31) \<and> ys = xs"
  by (auto simp: int32_array_def)

lemma create_binary_mask_eq:
  "create_binary_mask c s h w =
     (if h < 0 \<or> w < 0 then Inl ValueError
      else if \<not> (\<forall>x \<in> set s. - (2 ^ 31) \<le> x \<and> x < 2 ^ 31) then Inl OverflowError
      else if odd (length s) then Inl ValueError
      else fillPoly c (replicate (nat h) (replicate (nat w) 0)) (pairs s) 1)"
  by (simp add: create_binary_mask_def zeros_def int32_array_def reshape2_def)

lemma create_binary_mask_Inr:
  assumes "create_binary_mask c s h w = Inr m"
  shows "0 \<le> h \<and> 0 \<le> w \<and> (\<forall>x \<in> set s. - (2 ^ 31) \<le> x \<and> x < 2 ^ 31) \<and> even (length s) \<and>
         fillPoly c (replicate (nat h) (replicate (nat w) 0)) (pairs s) 1 = Inr m"
  using assms by (simp add: create_binary_mask_eq split: if_splits)

lemma create_binary_mask_shape:
  assumes "create_binary_mask c s h w = Inr m"
  shows "map length m = replicate (nat h) (nat w)"
  using length_fillPoly [of c "replicate (nat h) (replicate (nat w) 0)" "pairs s" 1 m]
    create_binary_mask_Inr [OF assms]
  by simp

lemma create_binary_mask_nth:
  assumes "create_binary_mask c s h w = Inr m" "y < nat h" "x < nat w"
  shows "m ! y ! x = (if covered c (nat h) (nat w) (pairs s) x y then 1 else 0)"
proof -
  let ?img = "replicate (nat h) (replicate (nat w) (0 :: 8 word))"
  have f: "fillPoly c ?img (pairs s) 1 = Inr m"
    using create_binary_mask_Inr [OF assms(1)] by simp
  have "hd ?img = replicate (nat w) 0" using assms(2) by (simp add: hd_replicate)
  with nth_fillPoly [OF f, of y x] assms(2,3) show ?thesis by simp
qed

lemma or_zero_mask:
  assumes "map length g = replicate h w"
  shows "or_masks (replicate h (replicate w 0)) g = g"
proof (rule nth_equalityI)
  have lg: "length g = h" using assms by (metis length_map length_replicate)
  show l: "length (or_masks (replicate h (replicate w 0)) g) = length g"
    using lg by (simp add: or_masks_def)
  fix y assume "y < length (or_masks (replicate h (replicate w 0)) g)"
  then have y: "y < h" using l lg by simp
  have lr: "length (g ! y) = w" using assms y lg by (metis nth_map nth_replicate)
  show "or_masks (replicate h (replicate w 0)) g ! y = g ! y"
    using y lg lr by (auto simp: or_masks_def intro!: nth_equalityI)
qed

lemma accumulate_fold:
  assumes "map length seed = L" "\<forall>m \<in> set ms. map length m = L"
  shows "accumulate seed ms = Inr (fold (\<lambda>m a. or_masks a m) ms seed) \<and>
         map length (fold (\<lambda>m a. or_masks a m) ms seed) = L"
  using assms
proof (induction ms arbitrary: seed)
  case Nil
  then show ?case by (simp add: accumulate_def)
next
  case (Cons m ms)
  have "map length (or_masks seed m) = L"
    using Cons.prems by (simp add: map_length_or_masks)
  from Cons.IH [OF this] Cons.prems show ?case
    by (simp add: accumulate_def bitwise_or_def)
qed


lemma map2_assoc:
  assumes "\<And>a x y. f (f a x) y = f a (f x y)"
  shows "map2 f (map2 f a x) y = map2 f a (map2 f x y)"
proof (induction a arbitrary: x y)
  case Nil
  then show ?case by simp
next
  case (Cons r a)
  show ?case
  proof (cases x)
    case Nil
    then show ?thesis by simp
  next
    case xc: (Cons x1 xs)
    show ?thesis
    proof (cases y)
      case Nil
      then show ?thesis using xc by simp
    next
      case yc: (Cons y1 ys)
      show ?thesis using xc yc Cons.IH assms by simp
    qed
  qed
qed

lemma map2_commute:
  assumes "\<And>x y. f x y = f y x"
  shows "map2 f a b = map2 f b a"
proof (induction a arbitrary: b)
  case Nil
  then show ?case by simp
next
  case (Cons r a)
  then show ?case using assms by (cases b) simp_all
qed

lemma or_masks_assoc: "or_masks (or_masks a b) c = or_masks a (or_masks b c)"
  unfolding or_masks_def
proof (rule map2_assoc)
  fix a x y :: "8 word list"
  show "map2 (OR) (map2 (OR) a x) y = map2 (OR) a (map2 (OR) x y)"
    by (rule map2_assoc) (simp add: ac_simps)
qed

lemma or_masks_commute: "or_masks a b = or_masks b a"
  unfolding or_masks_def
proof (rule map2_commute)
  fix x y :: "8 word list"
  show "map2 (OR) x y = map2 (OR) y x"
    by (rule map2_commute) (simp add: ac_simps)
qed

lemma for_each_concat:
  "for_each (\<lambda>acc x. for_each f (g x) acc) xs s = for_each f (concat (map g xs)) s"
  by (induction xs arbitrary: s) (auto simp: for_each_append split: sum.splits)

lemma add_segmentation_Inr:
  "add_segmentation c h w acc s = Inr acc' \<longleftrightarrow>
     (\<exists>r. create_binary_mask c s h w = Inr r \<and> bitwise_or acc r = Inr acc')"
  by (simp add: add_segmentation_def split: sum.splits)

lemma add_segmentations_Inr:
  assumes "for_each (add_segmentation c h w) polys acc = Inr m"
  shows "\<exists>rs. map (\<lambda>s. create_binary_mask c s h w) polys = map Inr rs \<and>
              accumulate acc rs = Inr m"
  using assms
proof (induction polys arbitrary: acc)
  case Nil
  then show ?case by (simp add: accumulate_def)
next
  case (Cons s polys)
  from Cons.prems obtain r acc' where
    r: "create_binary_mask c s h w = Inr r" and
    o: "bitwise_or acc r = Inr acc'" and
    rest: "for_each (add_segmentation c h w) polys acc' = Inr m"
    by (auto simp: add_segmentation_Inr split: sum.splits)
  from Cons.IH [OF rest] obtain rs where
    rs: "map (\<lambda>s. create_binary_mask c s h w) polys = map Inr rs"
        "accumulate acc' rs = Inr m"
    by blast
  have "map (\<lambda>s. create_binary_mask c s h w) (s # polys) = map Inr (r # rs)"
    using r rs(1) by simp
  moreover have "accumulate acc (r # rs) = Inr m"
    using o rs(2) by (simp add: accumulate_def)
  ultimately show ?case by blast
qed

lemma combined_mask_concat:
  "combined_mask c h w anns =
     (case zeros h w of
        Inl e \<Rightarrow> Inl e
      | Inr z \<Rightarrow> for_each (add_segmentation c h w) (concat (map segmentation anns)) z)"
  by (simp add: combined_mask_def for_each_concat split: sum.splits)

lemma fold_or_nth:
  assumes "map length seed = replicate h w" "\<forall>m \<in> set ms. map length m = replicate h w"
    "y < h" "x < w"
  shows "fold (\<lambda>m a. or_masks a m) ms seed ! y ! x =
         fold (\<lambda>m v. v OR (m ! y ! x)) ms (seed ! y ! x)"
  using assms(1,2)
proof (induction ms arbitrary: seed)
  case Nil
  then show ?case by simp
next
  case (Cons m ms)
  have sm: "map length seed = map length m" using Cons.prems by simp
  have l: "length seed = h" using Cons.prems(1) by (metis length_map length_replicate)
  have ly: "length (seed ! y) = w"
    using Cons.prems(1) l assms(3) by (metis nth_map nth_replicate)
  have s: "map length (or_masks seed m) = replicate h w"
    using Cons.prems sm by (simp add: map_length_or_masks)
  have "or_masks seed m ! y ! x = (seed ! y ! x) OR (m ! y ! x)"
    using sm l ly assms(3,4) by (simp add: nth_or_masks)
  with Cons.IH [OF s] Cons.prems(2) show ?case by simp
qed

lemma fold_or_cell:
  fixes v :: "8 word"
  assumes "v = 0 \<or> v = 1" "\<forall>m \<in> set ms. g m = 0 \<or> g m = 1"
  shows "fold (\<lambda>m v. v OR g m) ms v = (if v = 1 \<or> (\<exists>m \<in> set ms. g m = 1) then 1 else 0)"
  using assms
proof (induction ms arbitrary: v)
  case Nil
  then show ?case by auto
next
  case (Cons m ms)
  have "v OR g m = 0 \<or> v OR g m = 1" using Cons.prems by auto
  from Cons.IH [OF this] Cons.prems show ?case by auto
qed

lemma mask_shape_binary_cells:
  assumes "map length m = replicate h w"
  shows "binary m \<longleftrightarrow> (\<forall>y<h. \<forall>x<w. m ! y ! x = 0 \<or> m ! y ! x = 1)"
proof -
  have lm: "length m = h" using assms by (metis length_map length_replicate)
  have lr: "length (m ! y) = w" if "y < h" for y
    using assms that lm by (metis nth_map nth_replicate)
  show ?thesis
  proof
    assume b: "binary m"
    show "\<forall>y<h. \<forall>x<w. m ! y ! x = 0 \<or> m ! y ! x = 1"
    proof (intro allI impI)
      fix y x assume "y < h" "x < w"
      then have "m ! y \<in> set m" "m ! y ! x \<in> set (m ! y)" using lm lr by simp_all
      then show "m ! y ! x = 0 \<or> m ! y ! x = 1" using b unfolding binary_def by blast
    qed
  next
    assume c: "\<forall>y<h. \<forall>x<w. m ! y ! x = 0 \<or> m ! y ! x = 1"
    show "binary m" unfolding binary_def
    proof (intro ballI)
      fix row v assume "row \<in> set m" "v \<in> set row"
      then obtain y x where "y < length m" "m ! y = row" "x < length row" "row ! x = v"
        by (auto simp: in_set_conv_nth)
      then show "v = 0 \<or> v = 1" using c lm lr by auto
    qed
  qed
qed

lemma create_binary_mask_binary:
  assumes "create_binary_mask c s h w = Inr m"
  shows "binary m"
  using create_binary_mask_nth [OF assms]
  by (simp add: mask_shape_binary_cells [OF create_binary_mask_shape [OF assms]])

lemma fold_or_masks_shift:
  "fold (\<lambda>m a. or_masks a m) ys (or_masks a b) = or_masks a (fold (\<lambda>m a. or_masks a m) ys b)"
  by (induction ys arbitrary: b) (simp_all add: or_masks_assoc)

lemma accumulate_permute:
  assumes "mset zs = mset ms"
  shows "fold (\<lambda>m a. or_masks a m) zs seed = fold (\<lambda>m a. or_masks a m) ms seed"
proof -
  have "fold (\<lambda>m a. or_masks a m) zs = fold (\<lambda>m a. or_masks a m) ms"
    by (rule fold_multiset_equiv [OF _ assms]) (simp add: fun_eq_iff or_masks_left_commute)
  then show ?thesis by simp
qed

lemma combined_mask_cells:
  assumes z: "zeros h w = Inr z"
    and rs: "map (\<lambda>s. create_binary_mask c s h w) polys = map Inr rs"
    and y: "y < nat h" and x: "x < nat w"
  shows "fold (\<lambda>m a. or_masks a m) rs z ! y ! x = (if \<exists>r \<in> set rs. r ! y ! x = 1 then 1 else 0)"
proof -
  have zz: "z = replicate (nat h) (replicate (nat w) 0)" using z by (simp add: zeros_Inr)
  have each: "create_binary_mask c (polys ! i) h w = Inr (rs ! i)" if "i < length rs" for i
  proof -
    have "length polys = length rs" using rs by (metis length_map)
    then show ?thesis using that rs by (metis nth_map)
  qed
  have sh: "\<forall>r \<in> set rs. map length r = replicate (nat h) (nat w)"
    using each create_binary_mask_shape by (metis in_set_conv_nth)
  have bin: "\<forall>r \<in> set rs. r ! y ! x = 0 \<or> r ! y ! x = 1"
  proof
    fix r assume "r \<in> set rs"
    then obtain i where "i < length rs" "rs ! i = r" by (auto simp: in_set_conv_nth)
    then have "create_binary_mask c (polys ! i) h w = Inr r" using each by auto
    from create_binary_mask_nth [OF this y x] show "r ! y ! x = 0 \<or> r ! y ! x = 1" by auto
  qed
  have "fold (\<lambda>m a. or_masks a m) rs z ! y ! x = fold (\<lambda>m v. v OR (m ! y ! x)) rs (z ! y ! x)"
    using sh y x by (intro fold_or_nth [where h = "nat h" and w = "nat w"]) (simp_all add: zz)
  also have "z ! y ! x = 0" using y x by (simp add: zz)
  also have "fold (\<lambda>m v. v OR (m ! y ! x)) rs 0 = (if 0 = (1::8 word) \<or> (\<exists>m \<in> set rs. m ! y ! x = 1) then 1 else 0)"
    using bin by (intro fold_or_cell) simp_all
  finally show ?thesis by simp
qed

section \<open>The lookup tables and the index: auxiliary facts\<close>

lemma fold_update_last:
  "fold (\<lambda>x m. m(kf x \<mapsto> vf x)) xs m0 k =
     (case find (\<lambda>x. kf x = k) (rev xs) of None \<Rightarrow> m0 k | Some x \<Rightarrow> Some (vf x))"
  by (induction xs rule: rev_induct) simp_all

lemma find_None_image: "find (\<lambda>x. kf x = k) xs = None \<longleftrightarrow> k \<notin> kf ` set xs"
  by (auto simp: find_None_iff)

lemma image_id_to_file_last:
  "image_id_to_file imgs k = map_option file_name (find (\<lambda>i. img_id i = k) (rev imgs))"
  by (simp add: image_id_to_file_def fold_update_last split: option.splits)

lemma image_id_to_size_last:
  "image_id_to_size imgs k =
     map_option (\<lambda>i. (height i, width i)) (find (\<lambda>i. img_id i = k) (rev imgs))"
  by (simp add: image_id_to_size_def fold_update_last split: option.splits)

lemma category_map_last:
  "category_map cats k = map_option name (find (\<lambda>c. cat_id c = k) (rev cats))"
  by (simp add: category_map_def fold_update_last split: option.splits)

lemma image_id_to_file_None: "image_id_to_file imgs k = None \<longleftrightarrow> k \<notin> img_id ` set imgs"
  by (simp add: image_id_to_file_last find_None_image)

lemma category_map_None: "category_map cats k = None \<longleftrightarrow> k \<notin> cat_id ` set cats"
  by (simp add: category_map_last find_None_image)

lemma add_annotation_keys:
  "map fst (add_annotation d a) =
     (if image_id a \<in> set (map fst d) then map fst d else map fst d @ [image_id a])"
  by (auto simp: add_annotation_def Let_def comp_def split_def)

lemma add_annotation_entries:
  assumes "\<forall>(k, v) \<in> set d. v = filter (\<lambda>b. image_id b = k) anns"
    and "set (map fst d) = image_id ` set anns"
  shows "\<forall>(k, v) \<in> set (add_annotation d a). v = filter (\<lambda>b. image_id b = k) (anns @ [a])"
proof -
  have new: "filter (\<lambda>b. image_id b = image_id a) anns = []" if "image_id a \<notin> set (map fst d)"
  proof -
    have "image_id a \<notin> image_id ` set anns" using that assms(2) by simp
    then have "\<forall>b \<in> set anns. image_id b \<noteq> image_id a" by (metis imageI)
    then show ?thesis by (simp add: filter_empty_conv)
  qed
  show ?thesis using assms(1) new
    by (auto simp: add_annotation_def Let_def split: if_splits)
qed

lemma image_annotations_inv:
  "distinct (map fst (image_annotations anns)) \<and>
   set (map fst (image_annotations anns)) = image_id ` set anns \<and>
   (\<forall>(k, v) \<in> set (image_annotations anns). v = filter (\<lambda>b. image_id b = k) anns)"
proof (induction anns rule: rev_induct)
  case Nil
  then show ?case by (simp add: image_annotations_def)
next
  case (snoc a anns)
  let ?d = "image_annotations anns"
  have step: "image_annotations (anns @ [a]) = add_annotation ?d a"
    by (simp add: image_annotations_def)
  have "distinct (map fst (add_annotation ?d a))"
    using snoc by (simp add: add_annotation_keys)
  moreover have "set (map fst (add_annotation ?d a)) = image_id ` set (anns @ [a])"
    using snoc by (auto simp: add_annotation_keys)
  moreover have "\<forall>(k, v) \<in> set (add_annotation ?d a). v = filter (\<lambda>b. image_id b = k) (anns @ [a])"
    using snoc by (intro add_annotation_entries) simp_all
  ultimately show ?case unfolding step by blast
qed

lemma image_annotations_lookup:
  "map_of (image_annotations anns) k =
     (if k \<in> image_id ` set anns then Some (filter (\<lambda>b. image_id b = k) anns) else None)"
proof (cases "k \<in> image_id ` set anns")
  case True
  then have "k \<in> set (map fst (image_annotations anns))" using image_annotations_inv by blast
  then obtain v where v: "(k, v) \<in> set (image_annotations anns)" by auto
  then have "v = filter (\<lambda>b. image_id b = k) anns" using image_annotations_inv by blast
  moreover have "map_of (image_annotations anns) k = Some v"
    using v image_annotations_inv by simp
  ultimately show ?thesis using True by simp
next
  case False
  then have "k \<notin> set (map fst (image_annotations anns))" using image_annotations_inv by blast
  then show ?thesis using False by (simp add: map_of_eq_None_iff)
qed

section \<open>The loop bodies: auxiliary facts\<close>

lemma remdups_short:
  "\<not> 1 < length (remdups xs) \<Longrightarrow> remdups xs = c # rest \<Longrightarrow> rest = []"
  by (cases rest) (auto simp del: remdups.simps)

lemma times255_empty:
  "(times255 m = [] \<or> hd (times255 m) = []) \<longleftrightarrow> (m = [] \<or> hd m = [])"
  by (cases m) (simp_all add: times255_def)

lemma imwrite_Inr:
  "imwrite path (times255 m) = Inr wr \<longleftrightarrow>
     m \<noteq> [] \<and> hd m \<noteq> [] \<and> wr = ImWrite path (times255 m)"
  using times255_empty [of m] by (auto simp: imwrite_def)

lemma process_image_cases:
  assumes "process_image c p f s cm idir odir st (k, anns) = Inr st'"
  shows "(1 < length (remdups (map category_id anns)) \<and>
          (\<exists>fn. f k = Some fn \<and> st' = st\<lparr>trace := trace st @ skip_effects fn\<rparr>)) \<or>
         (\<exists>cid nm fn h w m.
            remdups (map category_id anns) = [cid] \<and> cm cid = Some nm \<and> f k = Some fn \<and>
            p (path_join idir fn) \<and> s k = Some (h, w) \<and> combined_mask c h w anns = Inr m \<and>
            m \<noteq> [] \<and> hd m \<noteq> [] \<and>
            st' = st\<lparr>class_counts := incr (class_counts st) nm,
                     trace := trace st @ assign_effects idir odir nm fn m\<rparr>)"
proof (cases "1 < length (remdups (map category_id anns))")
  case True
  with assms show ?thesis
    by (auto simp: process_image_def skip_effects_def split: option.splits)
next
  case False
  with assms obtain cid rest where r: "remdups (map category_id anns) = cid # rest"
    by (auto simp: process_image_def split: list.splits)
  with False have rest: "rest = []" by (rule remdups_short)
  from assms False r rest show ?thesis
    by (auto simp: process_image_def assign_effects_def copy2_def imwrite_Inr Let_def
        split: option.splits sum.splits if_splits)
qed


lemma process_image_skip:
  assumes "1 < length (remdups (map category_id anns))"
  shows "process_image c p f s cm idir odir st (k, anns) =
           (case f k of None \<Rightarrow> Inl KeyError
            | Some fn \<Rightarrow> Inr (st\<lparr>trace := trace st @ skip_effects fn\<rparr>))"
  using assms by (simp add: process_image_def skip_effects_def split: option.splits)

lemma process_image_assign:
  assumes "remdups (map category_id anns) = [cid]" "cm cid = Some nm" "f k = Some fn"
    "p (path_join idir fn)" "s k = Some (h, w)" "combined_mask c h w anns = Inr m"
    "m \<noteq> []" "hd m \<noteq> []"
  shows "process_image c p f s cm idir odir st (k, anns) =
           Inr (st\<lparr>class_counts := incr (class_counts st) nm,
                   trace := trace st @ assign_effects idir odir nm fn m\<rparr>)"
  using assms times255_empty [of m]
  by (simp add: process_image_def assign_effects_def copy2_def imwrite_def Let_def)

lemma process_image_dangling_category:
  assumes "remdups (map category_id anns) = [cid]" "cm cid = None"
  shows "process_image c p f s cm idir odir st (k, anns) = Inl KeyError"
  using assms by (simp add: process_image_def)

lemma process_image_dangling_image:
  assumes "f k = None"
  shows "process_image c p f s cm idir odir st (k, anns) = Inl KeyError"
  using assms by (simp add: process_image_def Let_def split: list.splits option.splits)

lemma assigned_class_cases:
  "(1 < length (remdups (map category_id anns)) \<longrightarrow> assigned_class cm anns = None) \<and>
   (remdups (map category_id anns) = [cid] \<longrightarrow> assigned_class cm anns = cm cid)"
  by (auto simp: assigned_class_def split: list.splits)

lemma process_image_state:
  "process_image c p f s cm idir odir st e =
     (case process_image c p f s cm idir odir \<lparr>class_counts = Map.empty, trace = []\<rparr> e of
        Inl err \<Rightarrow> Inl err
      | Inr d \<Rightarrow>
          Inr (st\<lparr>class_counts :=
                    (case assigned_class cm (snd e) of
                       None \<Rightarrow> class_counts st
                     | Some nm \<Rightarrow> incr (class_counts st) nm),
                  trace := trace st @ trace d\<rparr>))"
proof -
  obtain k anns where e: "e = (k, anns)" by (cases e)
  let ?e = "\<lparr>class_counts = Map.empty, trace = []\<rparr>"
  show ?thesis
  proof (cases "process_image c p f s cm idir odir ?e (k, anns)")
    case (Inl err)
    then have "process_image c p f s cm idir odir st (k, anns) = Inl err"
      by (auto simp: process_image_def Let_def split: option.splits sum.splits if_splits list.splits)
    then show ?thesis using Inl e by simp
  next
    case (Inr d)
    from process_image_cases [OF Inr] show ?thesis
    proof (elim disjE conjE exE)
      fix fn assume m: "1 < length (remdups (map category_id anns))" and fn: "f k = Some fn"
        and d: "d = ?e\<lparr>trace := trace ?e @ skip_effects fn\<rparr>"
      show ?thesis
        using Inr e d assigned_class_cases [of anns cm] m fn
        by (simp add: process_image_skip [OF m])
    next
      fix cid nm fn h w m
      assume a: "remdups (map category_id anns) = [cid]" "cm cid = Some nm" "f k = Some fn"
        "p (path_join idir fn)" "s k = Some (h, w)" "combined_mask c h w anns = Inr m"
        "m \<noteq> []" "hd m \<noteq> []"
        and d: "d = ?e\<lparr>class_counts := incr (class_counts ?e) nm,
                        trace := trace ?e @ assign_effects idir odir nm fn m\<rparr>"
      show ?thesis
        using Inr e d assigned_class_cases [of anns cm cid] a(1,2)
        by (simp add: process_image_assign [where cm = cm and f = f and p = p and s = s and c = c, OF a])
    qed
  qed
qed

lemma count_of_incr: "count_of (incr m k) c = count_of m c + (if c = k then 1 else 0)"
  by (simp add: count_of_def incr_def split: option.splits)

lemma move_unlabeled_eq:
  "move_unlabeled p idir cdir idx st img =
     (if img_id img \<in> set (map fst idx) then Inr st
      else if p (path_join idir (file_name img)) then
        Inr (st\<lparr>class_counts := incr (class_counts st) ''clean'',
                trace := trace st @ unlabeled_effects idir cdir img\<rparr>)
      else Inl FileNotFoundError)"
  by (simp add: move_unlabeled_def unlabeled_effects_def copy2_def Let_def)

lemma move_loop:
  assumes "for_each (move_unlabeled p idir cdir idx) imgs st = Inr st'"
  shows "trace st' = trace st @
           concat (map (unlabeled_effects idir cdir)
                     (filter (\<lambda>img. img_id img \<notin> set (map fst idx)) imgs)) \<and>
         count_of (class_counts st') c = count_of (class_counts st) c +
           (if c = ''clean''
            then length (filter (\<lambda>img. img_id img \<notin> set (map fst idx)) imgs) else 0)"
  using assms
proof (induction imgs arbitrary: st)
  case Nil
  then show ?case by simp
next
  case (Cons img imgs)
  from Cons.prems obtain s1 where
    s1: "move_unlabeled p idir cdir idx st img = Inr s1" and
    rest: "for_each (move_unlabeled p idir cdir idx) imgs s1 = Inr st'"
    by (auto split: sum.splits)
  from s1 have "trace s1 = trace st @
      (if img_id img \<notin> set (map fst idx) then unlabeled_effects idir cdir img else []) \<and>
    count_of (class_counts s1) c = count_of (class_counts st) c +
      (if c = ''clean'' \<and> img_id img \<notin> set (map fst idx) then 1 else 0)"
    by (auto simp: move_unlabeled_eq count_of_incr split: if_splits)
  with Cons.IH [OF rest] show ?case by auto
qed

lemma for_each_failure:
  assumes "for_each body pre st = Inr s" "body s e = Inl err"
  shows "for_each body (pre @ e # post) st = Inl err"
  using assms by (simp add: for_each_append)

lemma process_image_step:
  assumes "process_image c p (image_id_to_file (images coco)) (image_id_to_size (images coco))
             (category_map (categories coco)) idir odir st e = Inr st'"
  shows "trace st' = trace st @ image_effects c p coco idir odir e \<and>
         class_counts st' =
           (case assigned_class (category_map (categories coco)) (snd e) of
              None \<Rightarrow> class_counts st
            | Some nm \<Rightarrow> incr (class_counts st) nm)"
  using assms
  by (subst (asm) process_image_state) (auto simp: image_effects_def split: sum.splits)

lemma image_loop:
  assumes "for_each (process_image c p (image_id_to_file (images coco))
             (image_id_to_size (images coco)) (category_map (categories coco)) idir odir)
             idx st = Inr st'"
  shows "trace st' = trace st @ concat (map (image_effects c p coco idir odir) idx) \<and>
         count_of (class_counts st') nm = count_of (class_counts st) nm +
           length (filter (\<lambda>e. assigned_class (category_map (categories coco)) (snd e) = Some nm)
                     idx)"
  using assms
proof (induction idx arbitrary: st)
  case Nil
  then show ?case by simp
next
  case (Cons e idx)
  let ?body = "process_image c p (image_id_to_file (images coco))
             (image_id_to_size (images coco)) (category_map (categories coco)) idir odir"
  from Cons.prems obtain s1 where s1: "?body st e = Inr s1"
    and rest: "for_each ?body idx s1 = Inr st'"
    by (auto split: sum.splits)
  from process_image_step [OF s1]
  have "trace s1 = trace st @ image_effects c p coco idir odir e"
    and "count_of (class_counts s1) nm = count_of (class_counts st) nm +
      (if assigned_class (category_map (categories coco)) (snd e) = Some nm then 1 else 0)"
    by (auto simp: count_of_incr split: option.splits)
  with Cons.IH [OF rest] show ?case by auto
qed

lemma run_Inr:
  assumes "process_coco_dataset c p coco idir odir = Inr st"
  shows "\<exists>st1.
           for_each (move_unlabeled p idir (path_join odir ''clean'')
               (image_annotations (annotations coco))) (images coco)
             \<lparr>class_counts = Map.empty, trace = [MakeDirs (path_join odir ''clean'')]\<rparr> = Inr st1 \<and>
           for_each (process_image c p (image_id_to_file (images coco))
               (image_id_to_size (images coco)) (category_map (categories coco)) idir odir)
             (image_annotations (annotations coco)) st1 = Inr st"
  using assms by (auto simp: process_coco_dataset_def Let_def split: sum.splits)

lemma run_summary:
  assumes "process_coco_dataset c p coco idir odir = Inr st"
  shows "trace st =
           MakeDirs (path_join odir ''clean'') #
           concat (map (unlabeled_effects idir (path_join odir ''clean'')) (unlabeled_images coco)) @
           concat (map (image_effects c p coco idir odir) (image_annotations (annotations coco))) \<and>
         count_of (class_counts st) nm =
           (if nm = ''clean'' then length (unlabeled_images coco) else 0) +
           length (filter (\<lambda>e. assigned_class (category_map (categories coco)) (snd e) = Some nm)
                     (image_annotations (annotations coco)))"
proof -
  from run_Inr [OF assms] obtain st1 where
    l1: "for_each (move_unlabeled p idir (path_join odir ''clean'')
               (image_annotations (annotations coco))) (images coco)
             \<lparr>class_counts = Map.empty, trace = [MakeDirs (path_join odir ''clean'')]\<rparr> = Inr st1"
    and l2: "for_each (process_image c p (image_id_to_file (images coco))
               (image_id_to_size (images coco)) (category_map (categories coco)) idir odir)
             (image_annotations (annotations coco)) st1 = Inr st"
    by blast
  from move_loop [OF l1, of nm] image_loop [OF l2, of nm]
  show ?thesis by (simp add: unlabeled_images_def count_of_def)
qed

lemma for_each_member:
  assumes "for_each body xs st = Inr st'" "e \<in> set xs"
  shows "\<exists>s s'. body s e = Inr s'"
  using assms
proof (induction xs arbitrary: st)
  case Nil
  then show ?case by simp
next
  case (Cons x xs)
  from Cons.prems(1) obtain s1 where s1: "body st x = Inr s1"
    and rest: "for_each body xs s1 = Inr st'"
    by (auto split: sum.splits)
  show ?case
  proof (cases "e = x")
    case True
    then show ?thesis using s1 by blast
  next
    case False
    then have "e \<in> set xs" using Cons.prems(2) by simp
    from Cons.IH [OF rest this] show ?thesis .
  qed
qed

lemma category_ids_card:
  "length (remdups (map category_id anns)) = card (category_id ` set anns)"
  by (simp add: length_remdups_card_conv)

lemma entry_effects:
  assumes "process_image c p (image_id_to_file (images coco)) (image_id_to_size (images coco))
             (category_map (categories coco)) idir odir st (k, anns) = Inr st'"
  shows "(1 < card (category_id ` set anns) \<and>
          assigned_class (category_map (categories coco)) anns = None \<and>
          (\<exists>fn. image_id_to_file (images coco) k = Some fn \<and>
                image_effects c p coco idir odir (k, anns) = skip_effects fn)) \<or>
         (card (category_id ` set anns) = 1 \<and>
          (\<exists>nm fn h w m.
             assigned_class (category_map (categories coco)) anns = Some nm \<and>
             image_id_to_file (images coco) k = Some fn \<and>
             image_id_to_size (images coco) k = Some (h, w) \<and>
             combined_mask c h w anns = Inr m \<and>
             image_effects c p coco idir odir (k, anns) = assign_effects idir odir nm fn m))"
proof -
  let ?e = "\<lparr>class_counts = Map.empty, trace = []\<rparr>"
  let ?body = "process_image c p (image_id_to_file (images coco)) (image_id_to_size (images coco))
             (category_map (categories coco)) idir odir"
  from assms obtain d where d: "?body ?e (k, anns) = Inr d"
    by (subst (asm) process_image_state) (auto split: sum.splits)
  then have ie: "image_effects c p coco idir odir (k, anns) = trace d"
    by (simp add: image_effects_def)
  from process_image_cases [OF d] show ?thesis
  proof (elim disjE conjE exE)
    fix fn assume "1 < length (remdups (map category_id anns))"
      "image_id_to_file (images coco) k = Some fn" "d = ?e\<lparr>trace := trace ?e @ skip_effects fn\<rparr>"
    then show ?thesis
      using ie assigned_class_cases [of anns "category_map (categories coco)"]
      by (simp add: category_ids_card)
  next
    fix cid nm fn h w m
    assume a: "remdups (map category_id anns) = [cid]" "category_map (categories coco) cid = Some nm"
      "image_id_to_file (images coco) k = Some fn" "image_id_to_size (images coco) k = Some (h, w)"
      "combined_mask c h w anns = Inr m"
      "d = ?e\<lparr>class_counts := incr (class_counts ?e) nm,
               trace := trace ?e @ assign_effects idir odir nm fn m\<rparr>"
    have "card (category_id ` set anns) = 1"
      using a(1) category_ids_card [of anns] by simp
    moreover have "assigned_class (category_map (categories coco)) anns = Some nm"
      using assigned_class_cases [of anns "category_map (categories coco)" cid] a(1,2) by simp
    ultimately show ?thesis using a ie by simp
  qed
qed

lemma run_entry:
  assumes "process_coco_dataset c p coco idir odir = Inr st"
    and "e \<in> set (image_annotations (annotations coco))"
  shows "\<exists>s s'. process_image c p (image_id_to_file (images coco))
             (image_id_to_size (images coco)) (category_map (categories coco)) idir odir s e = Inr s'"
proof -
  from run_Inr [OF assms(1)] obtain st1 where
    "for_each (process_image c p (image_id_to_file (images coco))
               (image_id_to_size (images coco)) (category_map (categories coco)) idir odir)
             (image_annotations (annotations coco)) st1 = Inr st" by blast
  from for_each_member [OF this assms(2)] show ?thesis .
qed

lemma combined_mask_Inr:
  assumes "combined_mask c h w anns = Inr m"
  shows "mask_shape (nat h) (nat w) m \<and> binary m \<and>
         (\<exists>z rs. zeros h w = Inr z \<and>
            map (\<lambda>s. create_binary_mask c s h w) (concat (map segmentation anns)) = map Inr rs \<and>
            accumulate z rs = Inr m \<and>
            (\<forall>y<nat h. \<forall>x<nat w. m ! y ! x = (if \<exists>r \<in> set rs. r ! y ! x = 1 then 1 else 0)))"
proof -
  from assms obtain z where z: "zeros h w = Inr z"
    and loop: "for_each (add_segmentation c h w) (concat (map segmentation anns)) z = Inr m"
    by (auto simp: combined_mask_concat split: sum.splits)
  from add_segmentations_Inr [OF loop] obtain rs where
    rs: "map (\<lambda>s. create_binary_mask c s h w) (concat (map segmentation anns)) = map Inr rs"
    and acc: "accumulate z rs = Inr m" by blast
  have zz: "z = replicate (nat h) (replicate (nat w) 0)" using z by (simp add: zeros_Inr)
  have sh: "\<forall>r \<in> set rs. map length r = replicate (nat h) (nat w)"
  proof
    fix r assume "r \<in> set rs"
    then have "Inr r \<in> set (map (\<lambda>s. create_binary_mask c s h w) (concat (map segmentation anns)))"
      using rs by simp
    then obtain s where "create_binary_mask c s h w = Inr r" by auto
    then show "map length r = replicate (nat h) (nat w)" by (rule create_binary_mask_shape)
  qed
  have zs: "map length z = replicate (nat h) (nat w)" by (simp add: zz)
  from accumulate_fold [OF zs sh] acc
  have m: "m = fold (\<lambda>m a. or_masks a m) rs z" and ms: "map length m = replicate (nat h) (nat w)"
    by simp_all
  have cells: "\<forall>y<nat h. \<forall>x<nat w. m ! y ! x = (if \<exists>r \<in> set rs. r ! y ! x = 1 then 1 else 0)"
    using combined_mask_cells [OF z rs] m by simp
  then have "binary m" by (simp add: mask_shape_binary_cells [OF ms])
  with ms cells z rs acc show ?thesis unfolding mask_shape_def by blast
qed

lemma path_join_under:
  assumes "b = [] \<or> hd b \<noteq> CHR ''/''"
  shows "\<exists>rest. path_join a b = a @ rest"
  using assms by (auto simp: path_join_def)

lemma splitext_root_take: "\<exists>n. splitext_root p = take n p"
proof -
  have "splitext_root p = take (nat (rfind CHR ''.'' p)) p \<or> splitext_root p = take (length p) p"
    by (auto simp: splitext_root_def Let_def)
  then show ?thesis by blast
qed

lemma mask_filename_relative:
  assumes "fn = [] \<or> hd fn \<noteq> CHR ''/''"
  shows "hd (splitext_root fn @ ''.png'') \<noteq> CHR ''/''"
proof -
  obtain n where n: "splitext_root fn = take n fn" using splitext_root_take by blast
  show ?thesis
  proof (cases "take n fn = []")
    case True
    have "hd (''.png'') \<noteq> CHR ''/''" by simp
    then show ?thesis unfolding n True by simp
  next
    case False
    then have "fn \<noteq> []" "0 < n" by auto
    then have "hd (take n fn @ ''.png'') = hd fn" using False by (cases fn; cases n) auto
    then show ?thesis using assms n \<open>fn \<noteq> []\<close> by simp
  qed
qed

lemma class_paths_under:
  assumes "fn = [] \<or> hd fn \<noteq> CHR ''/''"
  shows "(\<exists>r. path_join d fn = d @ r) \<and>
         (\<exists>r. path_join (path_join d ''images'') fn = d @ r) \<and>
         (\<exists>r. path_join (path_join d ''masks'') (splitext_root fn @ ''.png'') = d @ r)"
proof -
  obtain i where i: "path_join d ''images'' = d @ i" using path_join_under [of "''images''" d] by auto
  obtain k where k: "path_join d ''masks'' = d @ k" using path_join_under [of "''masks''" d] by auto
  obtain r2 where "path_join (path_join d ''images'') fn = path_join d ''images'' @ r2"
    using path_join_under [OF assms] by blast
  then have 2: "path_join (path_join d ''images'') fn = d @ (i @ r2)" using i by simp
  have "splitext_root fn @ ''.png'' = [] \<or> hd (splitext_root fn @ ''.png'') \<noteq> CHR ''/''"
    using mask_filename_relative [OF assms] by simp
  from path_join_under [OF this] obtain r3 where
    "path_join (path_join d ''masks'') (splitext_root fn @ ''.png'') = path_join d ''masks'' @ r3"
    by blast
  then have 3: "path_join (path_join d ''masks'') (splitext_root fn @ ''.png'') = d @ (k @ r3)"
    using k by simp
  from path_join_under [OF assms, of d] 2 3 show ?thesis by blast
qed

lemma run_failure:
  assumes "for_each (move_unlabeled p idir (path_join odir ''clean'')
               (image_annotations (annotations coco))) (images coco)
             \<lparr>class_counts = Map.empty, trace = [MakeDirs (path_join odir ''clean'')]\<rparr> = Inr st1"
    and "image_annotations (annotations coco) = pre @ e # post"
    and "for_each (process_image c p (image_id_to_file (images coco))
               (image_id_to_size (images coco)) (category_map (categories coco)) idir odir)
             pre st1 = Inr s"
    and "process_image c p (image_id_to_file (images coco))
               (image_id_to_size (images coco)) (category_map (categories coco)) idir odir
             s e = Inl err"
  shows "process_coco_dataset c p coco idir odir = Inl err"
  using assms(1) for_each_failure [OF assms(3,4), of post]
  by (simp add: process_coco_dataset_def Let_def assms(2))

lemma run_failure_first:
  assumes "for_each (move_unlabeled p idir (path_join odir ''clean'')
               (image_annotations (annotations coco))) (images coco)
             \<lparr>class_counts = Map.empty, trace = [MakeDirs (path_join odir ''clean'')]\<rparr> = Inl err"
  shows "process_coco_dataset c p coco idir odir = Inl err"
  using assms by (simp add: process_coco_dataset_def Let_def)

lemma single_category_ids:
  assumes "category_id ` set anns = {cid}"
  shows "remdups (map category_id anns) = [cid]"
proof -
  have s: "set (remdups (map category_id anns)) = {cid}" using assms by simp
  have "length (remdups (map category_id anns)) = 1"
    using assms by (simp add: length_remdups_card_conv)
  then obtain x where "remdups (map category_id anns) = [x]"
    by (cases "remdups (map category_id anns)") (auto simp del: remdups.simps)
  with s show ?thesis by simp
qed

section \<open>The sample inputs: auxiliary facts\<close>

lemma sample_run:
  "\<exists>st. process_coco_dataset vertex_fill (\<lambda>_. True) sample_coco ''in'' ''out'' = Inr st"
proof -
  have "\<not> isl (process_coco_dataset vertex_fill (\<lambda>_. True) sample_coco ''in'' ''out'')"
    by code_simp
  then show ?thesis
    by (cases "process_coco_dataset vertex_fill (\<lambda>_. True) sample_coco ''in'' ''out''") auto
qed

lemma sample_index:
  "image_annotations (annotations sample_coco) =
     [(1, [\<lparr>image_id = 1, category_id = 1, segmentation = [[0, 0, 1, 1]]\<rparr>,
           \<lparr>image_id = 1, category_id = 1, segmentation = [[1, 0, 1, 0], [0, 0]]\<rparr>]),
      (3, [\<lparr>image_id = 3, category_id = 1, segmentation = [[0, 0, 1, 0, 1, 1]]\<rparr>,
           \<lparr>image_id = 3, category_id = 2, segmentation = []\<rparr>]),
      (4, [\<lparr>image_id = 4, category_id = 2, segmentation = [[0, 0, 0, 0]]\<rparr>])]"
  by code_simp

section \<open>The claims about masks\<close>

text \<open>
  C4, as the script behaves. \<^verbatim>\<open>create_binary_mask\<close> raises whenever the number of
  coordinates is odd, and then, on dimensions that are not negative and coordinates that
  fit \<^verbatim>\<open>int32\<close>, what it raises is the \<open>ValueError\<close> of \<^verbatim>\<open>reshape\<close>. It raises on a
  polygon without coordinates, there the \<^verbatim>\<open>cv2.error\<close> of \<^verbatim>\<open>cv2.fillPoly\<close>. It does not
  raise because a polygon has only one or two vertices. Every grid it returns has
  \<open>height\<close> rows and \<open>width\<close> columns and only cells 0 and 1, and comes from a polygon with
  an even number of coordinates, not none, on a positive height. It returns such a grid
  for every polygon with an even number of coordinates, not none, all within \<^verbatim>\<open>int32\<close>,
  that \<^verbatim>\<open>cv2.fillPoly\<close> accepts on a mask of positive height.
\<close>

theorem create_binary_mask_raises_on_odd_or_empty:
  "(odd (length s) \<or> s = [] \<longrightarrow> isl (create_binary_mask c s h w)) \<and>
   (odd (length s) \<and> 0 \<le> h \<and> 0 \<le> w \<and> (\<forall>x \<in> set s. - (2 ^ 31) \<le> x \<and> x < 2 ^ 31) \<longrightarrow>
      create_binary_mask c s h w = Inl ValueError) \<and>
   (s = [] \<and> 0 \<le> h \<and> 0 \<le> w \<longrightarrow> create_binary_mask c s h w = Inl Cv2Error) \<and>
   (\<forall>m. create_binary_mask c s h w = Inr m \<longrightarrow>
      mask_shape (nat h) (nat w) m \<and> binary m \<and> even (length s) \<and> s \<noteq> [] \<and> 0 < h) \<and>
   (even (length s) \<and> s \<noteq> [] \<and> 0 < h \<and> 0 \<le> w \<and>
    (\<forall>x \<in> set s. - (2 ^ 31) \<le> x \<and> x < 2 ^ 31) \<and>
    \<not> rejects c (nat h) (nat w) (pairs s) \<longrightarrow>
      (\<exists>m. create_binary_mask c s h w = Inr m \<and> mask_shape (nat h) (nat w) m \<and> binary m))"
proof -
  let ?img = "replicate (nat h) (replicate (nat w) (0 :: 8 word))"
  have ret: "mask_shape (nat h) (nat w) m \<and> binary m \<and> even (length s) \<and> s \<noteq> [] \<and> 0 < h"
    if m: "create_binary_mask c s h w = Inr m" for m
  proof -
    from create_binary_mask_Inr [OF m] have ev: "even (length s)" and h0: "0 \<le> h"
      and f: "fillPoly c ?img (pairs s) 1 = Inr m" by simp_all
    from f have "pairs s \<noteq> []" and "?img \<noteq> []" by (simp_all add: fillPoly_Inr)
    then have "s \<noteq> []" and "0 < h" by auto
    with create_binary_mask_shape [OF m] create_binary_mask_binary [OF m] ev
    show ?thesis by (simp add: mask_shape_def)
  qed
  have odd: "isl (create_binary_mask c s h w)" if "odd (length s) \<or> s = []"
  proof (cases "create_binary_mask c s h w")
    case (Inl e)
    then show ?thesis by simp
  next
    case (Inr m)
    from ret [OF Inr] that show ?thesis by auto
  qed
  have empty: "create_binary_mask c s h w = Inl Cv2Error" if "s = []" "0 \<le> h" "0 \<le> w"
    using that by (simp add: create_binary_mask_eq fillPoly_def Let_def)
  have total: "\<exists>m. create_binary_mask c s h w = Inr m \<and> mask_shape (nat h) (nat w) m \<and> binary m"
    if a: "even (length s)" "s \<noteq> []" "0 < h" "0 \<le> w"
      "\<forall>x \<in> set s. - (2 ^ 31) \<le> x \<and> x < 2 ^ 31" "\<not> rejects c (nat h) (nat w) (pairs s)"
  proof -
    from a(1,2) obtain x y rest where "s = x # y # rest"
      by (cases s rule: pairs.cases) auto
    then have p: "pairs s \<noteq> []" by simp
    have hd: "hd ?img = replicate (nat w) 0" using a(3) by (simp add: hd_replicate)
    have "\<exists>m. fillPoly c ?img (pairs s) 1 = Inr m"
      using p a(3,6) hd by (simp add: fillPoly_Inr)
    then obtain m where "create_binary_mask c s h w = Inr m"
      using a by (auto simp: create_binary_mask_eq)
    with ret [OF this] show ?thesis by blast
  qed
  show ?thesis using ret odd empty total by (simp add: create_binary_mask_eq)
qed

theorem create_binary_mask_raises_on_odd_or_empty_witness:
  "create_binary_mask vertex_fill [0, 0, 1, 1, 0, 1, 7] 2 2 = Inl ValueError \<and>
   create_binary_mask vertex_fill [] 2 2 = Inl Cv2Error \<and>
   create_binary_mask vertex_fill [0, 0, 1, 1, 0, 1] 2 2 = Inr [[1, 0], [1, 1]] \<and>
   mask_shape 2 2 [[1, 0], [1, 1]] \<and> binary [[1, 0], [1, 1]]"
proof -
  have odd: "create_binary_mask vertex_fill [0, 0, 1, 1, 0, 1, 7] 2 2 = Inl ValueError"
    using create_binary_mask_raises_on_odd_or_empty [of "[0, 0, 1, 1, 0, 1, 7]" vertex_fill 2 2]
    by simp
  have empty: "create_binary_mask vertex_fill [] 2 2 = Inl Cv2Error"
    using create_binary_mask_raises_on_odd_or_empty [of "[]" vertex_fill 2 2] by simp
  have v: "create_binary_mask vertex_fill [0, 0, 1, 1, 0, 1] 2 2 = Inr [[1, 0], [1, 1]]"
    by code_simp
  from create_binary_mask_raises_on_odd_or_empty [of "[0, 0, 1, 1, 0, 1]" vertex_fill 2 2] v
  have "mask_shape 2 2 [[1, 0], [1, 1]] \<and> binary [[1, 0], [1, 1]]" by simp
  with odd empty v show ?thesis by simp
qed

theorem two_vertices_counterexample:
  "length [0, 0, 1, 1 :: int] div 2 < 3 \<and>
   create_binary_mask vertex_fill [0, 0, 1, 1] 2 2 = Inr [[1, 0], [0, 1]] \<and>
   length [0, 0 :: int] div 2 < 3 \<and>
   create_binary_mask vertex_fill [0, 0] 1 1 = Inr [[1]]"
  by code_simp

text \<open>
  C2. When the second loop takes an index entry whose annotations carry one category id
  and finishes it, the mask it hands to \<^verbatim>\<open>cv2.imwrite\<close> is 255 times the combined mask
  \<open>m\<close> of the entry, where: \<open>m\<close> has as many rows and columns as the height and width
  recorded for the image id; every cell of \<open>m\<close> is 0 or 1; \<open>m\<close> is the accumulation,
  by \<^verbatim>\<open>cv2.bitwise_or\<close> from the zero mask, of the rasterised polygons of all annotations
  of the entry; and a cell of \<open>m\<close> is 1 exactly when it is 1 in one of these.
\<close>

theorem combined_mask_is_or:
  assumes step: "process_image c p f s cm idir odir st (k, anns) = Inr st'"
    and single: "card (category_id ` set anns) = 1"
  shows "\<exists>nm fn h w m z rs.
           s k = Some (h, w) \<and>
           trace st' = trace st @ assign_effects idir odir nm fn m \<and>
           combined_mask c h w anns = Inr m \<and>
           mask_shape (nat h) (nat w) m \<and> binary m \<and>
           zeros h w = Inr z \<and>
           map (\<lambda>sg. create_binary_mask c sg h w) (concat (map segmentation anns)) = map Inr rs \<and>
           accumulate z rs = Inr m \<and>
           (\<forall>y<nat h. \<forall>x<nat w. m ! y ! x = (if \<exists>r \<in> set rs. r ! y ! x = 1 then 1 else 0))"
proof -
  have "length (remdups (map category_id anns)) = 1"
    using single by (simp add: length_remdups_card_conv)
  with process_image_cases [OF step] obtain nm fn h w m where
    a: "s k = Some (h, w)" "combined_mask c h w anns = Inr m"
       "st' = st\<lparr>class_counts := incr (class_counts st) nm,
                 trace := trace st @ assign_effects idir odir nm fn m\<rparr>"
    by auto
  from combined_mask_Inr [OF a(2)] a show ?thesis by auto
qed

theorem combined_mask_is_or_witness:
  "process_image vertex_fill (\<lambda>_. True) (image_id_to_file (images sample_coco))
     (image_id_to_size (images sample_coco)) (category_map (categories sample_coco))
     ''in'' ''out'' \<lparr>class_counts = Map.empty, trace = []\<rparr>
     (1, filter (\<lambda>a. image_id a = 1) (annotations sample_coco)) =
   Inr \<lparr>class_counts = incr Map.empty ''cat'',
        trace = assign_effects ''in'' ''out'' ''cat'' ''a.jpg'' [[1, 1], [0, 1]]\<rparr> \<and>
   card (category_id ` set (filter (\<lambda>a. image_id a = 1) (annotations sample_coco))) = 1 \<and>
   image_id_to_size (images sample_coco) 1 = Some (2, 2) \<and>
   combined_mask vertex_fill 2 2 (filter (\<lambda>a. image_id a = 1) (annotations sample_coco)) =
     Inr [[1, 1], [0, 1]] \<and>
   mask_shape 2 2 [[1, 1], [0, 1]] \<and> binary [[1, 1], [0, 1]]"
proof -
  let ?anns = "filter (\<lambda>a. image_id a = 1) (annotations sample_coco)"
  let ?st = "\<lparr>class_counts = Map.empty, trace = []\<rparr>"
  let ?st' = "\<lparr>class_counts = incr Map.empty ''cat'',
        trace = assign_effects ''in'' ''out'' ''cat'' ''a.jpg'' [[1, 1], [0, 1]]\<rparr>"
  have sz: "image_id_to_size (images sample_coco) 1 = Some (2, 2)"
    by (simp add: image_id_to_size_def sample_coco_def)
  have fl: "image_id_to_file (images sample_coco) 1 = Some ''a.jpg''"
    by (simp add: image_id_to_file_def sample_coco_def)
  have ct: "category_map (categories sample_coco) 1 = Some ''cat''"
    by (simp add: category_map_def sample_coco_def)
  have rd: "remdups (map category_id ?anns) = [1]" by (simp add: sample_coco_def)
  have single: "card (category_id ` set ?anns) = 1" by (simp add: sample_coco_def)
  have cm: "combined_mask vertex_fill 2 2 ?anns = Inr [[1, 1], [0, 1]]" by code_simp
  have step: "process_image vertex_fill (\<lambda>_. True) (image_id_to_file (images sample_coco))
     (image_id_to_size (images sample_coco)) (category_map (categories sample_coco))
     ''in'' ''out'' ?st (1, ?anns) = Inr ?st'"
    using process_image_assign [where c = vertex_fill and p = "\<lambda>_. True"
        and f = "image_id_to_file (images sample_coco)"
        and s = "image_id_to_size (images sample_coco)"
        and cm = "category_map (categories sample_coco)"
        and idir = "''in''" and odir = "''out''" and st = "?st", OF rd ct fl _ sz cm]
    by simp
  from combined_mask_is_or [OF step single] sz cm
  have "mask_shape 2 2 [[1, 1], [0, 1]] \<and> binary [[1, 1], [0, 1]]" by auto
  with step single sz cm show ?thesis by simp
qed

text \<open>
  C7. For masks of one size \<open>h\<close> by \<open>w\<close>, accumulated from the zero mask of that size:
  any reordering of the sequence gives the same result; the accumulation of a
  concatenation is the \<^verbatim>\<open>bitwise_or\<close> of the accumulations of its parts, taken in either
  order; one mask alone is returned unchanged; and no mask at all leaves the zero mask.
\<close>

theorem accumulate_order_independent:
  assumes shape: "\<forall>m \<in> set (xs @ ys). mask_shape h w m"
    and z: "zeros (int h) (int w) = Inr z"
  shows "(\<forall>zs. mset zs = mset (xs @ ys) \<longrightarrow> accumulate z zs = accumulate z (xs @ ys)) \<and>
         (\<exists>a b. accumulate z xs = Inr a \<and> accumulate z ys = Inr b \<and>
                 accumulate z (xs @ ys) = bitwise_or a b \<and> bitwise_or a b = bitwise_or b a) \<and>
         (\<forall>g. mask_shape h w g \<longrightarrow> accumulate z [g] = Inr g) \<and>
         accumulate z [] = Inr z"
proof -
  let ?f = "\<lambda>m a. or_masks a m"
  have zz: "z = replicate h (replicate w 0)" using z by (simp add: zeros_Inr)
  have zs: "map length z = replicate h w" by (simp add: zz)
  have sh: "\<forall>m \<in> set (xs @ ys). map length m = replicate h w"
    using shape by (simp add: mask_shape_def)
  have perm: "accumulate z zs = accumulate z (xs @ ys)" if p: "mset zs = mset (xs @ ys)" for zs
  proof -
    have "set zs = set (xs @ ys)" using p by (rule mset_eq_setD)
    then have "\<forall>m \<in> set zs. map length m = replicate h w" using sh by simp
    from accumulate_fold [OF zs this] accumulate_fold [OF zs sh] accumulate_permute [OF p]
    show ?thesis by simp
  qed
  have shx: "\<forall>m \<in> set xs. map length m = replicate h w"
    and shy: "\<forall>m \<in> set ys. map length m = replicate h w" using sh by simp_all
  note ax = accumulate_fold [OF zs shx] and ay = accumulate_fold [OF zs shy]
    and axy = accumulate_fold [OF zs sh]
  have "or_masks (fold ?f xs z) z = or_masks z (fold ?f xs z)" by (rule or_masks_commute)
  also have "\<dots> = fold ?f xs z" using ax unfolding zz by (intro or_zero_mask) simp
  finally have e: "or_masks (fold ?f xs z) z = fold ?f xs z" .
  have "fold ?f (xs @ ys) z = fold ?f ys (or_masks (fold ?f xs z) z)"
    unfolding e by simp
  also have "\<dots> = or_masks (fold ?f xs z) (fold ?f ys z)" by (rule fold_or_masks_shift)
  finally have "accumulate z (xs @ ys) = bitwise_or (fold ?f xs z) (fold ?f ys z)"
    using ax ay axy by (simp add: bitwise_or_def)
  moreover have "bitwise_or (fold ?f xs z) (fold ?f ys z) = bitwise_or (fold ?f ys z) (fold ?f xs z)"
    using ax ay by (simp add: bitwise_or_def or_masks_commute)
  ultimately have assoc: "\<exists>a b. accumulate z xs = Inr a \<and> accumulate z ys = Inr b \<and>
      accumulate z (xs @ ys) = bitwise_or a b \<and> bitwise_or a b = bitwise_or b a"
    using ax ay by blast
  have single: "accumulate z [g] = Inr g" if "mask_shape h w g" for g
    using that by (simp add: accumulate_def bitwise_or_def mask_shape_def zz or_zero_mask)
  have "accumulate z [] = Inr z" by (simp add: accumulate_def)
  with perm assoc single show ?thesis by blast
qed

theorem accumulate_order_independent_witness:
  "zeros 2 2 = Inr [[0, 0], [0, 0]] \<and>
   mask_shape 2 2 [[1, 0], [0, 0]] \<and> mask_shape 2 2 [[0, 0], [0, 1]] \<and>
   mask_shape 2 2 [[0, 1], [0, 1]] \<and>
   accumulate [[0, 0], [0, 0]] [[[0, 1], [0, 1]], [[1, 0], [0, 0]], [[0, 0], [0, 1]]] =
     accumulate [[0, 0], [0, 0]] [[[1, 0], [0, 0]], [[0, 0], [0, 1]], [[0, 1], [0, 1]]] \<and>
   accumulate [[0, 0], [0, 0]] [[[1, 0], [0, 0]], [[0, 0], [0, 1]], [[0, 1], [0, 1]]] =
     Inr [[1, 1], [0, 1]] \<and>
   accumulate [[0, 0], [0, 0]] [[[0, 1], [0, 1]]] = Inr [[0, 1], [0, 1]] \<and>
   accumulate [[0, 0], [0, 0]] [] = Inr [[0, 0], [0, 0]]"
proof -
  let ?a = "[[1, 0], [0, 0]] :: mask" and ?b = "[[0, 0], [0, 1]] :: mask"
    and ?c = "[[0, 1], [0, 1]] :: mask" and ?z = "[[0, 0], [0, 0]] :: mask"
  have z: "zeros (int 2) (int 2) = Inr ?z" by code_simp
  have sa: "mask_shape 2 2 ?a" and sb: "mask_shape 2 2 ?b" and sc: "mask_shape 2 2 ?c"
    by (simp_all add: mask_shape_def numeral_2_eq_2)
  then have sh: "\<forall>m \<in> set ([?a, ?b] @ [?c]). mask_shape 2 2 m" by simp
  have p: "mset [?c, ?a, ?b] = mset ([?a, ?b] @ [?c])" by simp
  note t = accumulate_order_independent [OF sh z]
  from t p have "accumulate ?z [?c, ?a, ?b] = accumulate ?z ([?a, ?b] @ [?c])" by blast
  moreover have "accumulate ?z ([?a, ?b] @ [?c]) = Inr [[1, 1], [0, 1]]" by code_simp
  moreover from t sc have "accumulate ?z [?c] = Inr ?c" by blast
  moreover from t have "accumulate ?z [] = Inr ?z" by blast
  moreover have "zeros 2 2 = Inr ?z" using z by simp
  ultimately show ?thesis using sa sb sc by simp
qed

section \<open>The claims about the run\<close>

text \<open>
  C1. In a run that completes, take any entry of the annotation index. It is assigned a
  class exactly when its annotations carry one category id, and an image file is copied
  for it exactly then. With one category id its effects are the two directories, the
  copy of the image, the mask and the notice, and it is counted under the name of the
  category. With two or more category ids its only effect is the skip notice: no copy,
  no mask, and it is counted under no class. The trace and the counts of the run consist
  of these effects and classes alone.
\<close>

theorem assigned_iff_single_category:
  assumes run: "process_coco_dataset c p coco idir odir = Inr st"
    and e: "(k, anns) \<in> set (image_annotations (annotations coco))"
  shows "(assigned_class (category_map (categories coco)) anns \<noteq> None \<longleftrightarrow>
            card (category_id ` set anns) = 1) \<and>
         ((\<exists>src dst. Copy2 src dst \<in> set (image_effects c p coco idir odir (k, anns))) \<longleftrightarrow>
            card (category_id ` set anns) = 1) \<and>
         (card (category_id ` set anns) = 1 \<longrightarrow>
            (\<exists>nm fn m.
               assigned_class (category_map (categories coco)) anns = Some nm \<and>
               image_effects c p coco idir odir (k, anns) = assign_effects idir odir nm fn m)) \<and>
         (1 < card (category_id ` set anns) \<longrightarrow>
            assigned_class (category_map (categories coco)) anns = None \<and>
            (\<exists>fn. image_effects c p coco idir odir (k, anns) =
               [Print (''Skipping image '' @ fn @ '' - multiple classes detected'')])) \<and>
         trace st =
           MakeDirs (path_join odir ''clean'') #
           concat (map (unlabeled_effects idir (path_join odir ''clean'')) (unlabeled_images coco)) @
           concat (map (image_effects c p coco idir odir) (image_annotations (annotations coco))) \<and>
         (\<forall>nm. count_of (class_counts st) nm =
           (if nm = ''clean'' then length (unlabeled_images coco) else 0) +
           length (filter (\<lambda>e. assigned_class (category_map (categories coco)) (snd e) = Some nm)
                     (image_annotations (annotations coco))))"
proof -
  from run_entry [OF run e] obtain s s' where
    "process_image c p (image_id_to_file (images coco)) (image_id_to_size (images coco))
       (category_map (categories coco)) idir odir s (k, anns) = Inr s'" by blast
  from entry_effects [OF this]
  have "(assigned_class (category_map (categories coco)) anns \<noteq> None \<longleftrightarrow>
            card (category_id ` set anns) = 1) \<and>
         ((\<exists>src dst. Copy2 src dst \<in> set (image_effects c p coco idir odir (k, anns))) \<longleftrightarrow>
            card (category_id ` set anns) = 1) \<and>
         (card (category_id ` set anns) = 1 \<longrightarrow>
            (\<exists>nm fn m.
               assigned_class (category_map (categories coco)) anns = Some nm \<and>
               image_effects c p coco idir odir (k, anns) = assign_effects idir odir nm fn m)) \<and>
         (1 < card (category_id ` set anns) \<longrightarrow>
            assigned_class (category_map (categories coco)) anns = None \<and>
            (\<exists>fn. image_effects c p coco idir odir (k, anns) =
               [Print (''Skipping image '' @ fn @ '' - multiple classes detected'')]))"
  proof (elim disjE conjE exE)
    fix fn
    assume "1 < card (category_id ` set anns)"
      "assigned_class (category_map (categories coco)) anns = None"
      "image_effects c p coco idir odir (k, anns) = skip_effects fn"
    then show ?thesis by (simp add: skip_effects_def)
  next
    fix nm fn h w m
    assume "card (category_id ` set anns) = 1"
      "assigned_class (category_map (categories coco)) anns = Some nm"
      "image_effects c p coco idir odir (k, anns) = assign_effects idir odir nm fn m"
    moreover have "\<exists>src dst. Copy2 src dst \<in> set (assign_effects idir odir nm fn m)"
      by (simp add: assign_effects_def)
    ultimately show ?thesis by auto
  qed
  with run_summary [OF run] show ?thesis by blast
qed

theorem assigned_iff_single_category_witness:
  "\<not> isl (process_coco_dataset vertex_fill (\<lambda>_. True) sample_coco ''in'' ''out'') \<and>
   (3, [\<lparr>image_id = 3, category_id = 1, segmentation = [[0, 0, 1, 0, 1, 1]]\<rparr>,
        \<lparr>image_id = 3, category_id = 2, segmentation = []\<rparr>])
     \<in> set (image_annotations (annotations sample_coco)) \<and>
   1 < card (category_id `
         set [\<lparr>image_id = 3, category_id = 1, segmentation = [[0, 0, 1, 0, 1, 1]]\<rparr>,
              \<lparr>image_id = 3, category_id = 2, segmentation = []\<rparr>]) \<and>
   assigned_class (category_map (categories sample_coco))
     [\<lparr>image_id = 3, category_id = 1, segmentation = [[0, 0, 1, 0, 1, 1]]\<rparr>,
      \<lparr>image_id = 3, category_id = 2, segmentation = []\<rparr>] = None \<and>
   image_effects vertex_fill (\<lambda>_. True) sample_coco ''in'' ''out''
     (3, [\<lparr>image_id = 3, category_id = 1, segmentation = [[0, 0, 1, 0, 1, 1]]\<rparr>,
          \<lparr>image_id = 3, category_id = 2, segmentation = []\<rparr>]) =
     [Print ''Skipping image c.jpg - multiple classes detected'']"
proof -
  let ?anns = "[\<lparr>image_id = 3, category_id = 1, segmentation = [[0, 0, 1, 0, 1, 1]]\<rparr>,
                \<lparr>image_id = 3, category_id = 2, segmentation = []\<rparr>]"
  from sample_run obtain st where
    st: "process_coco_dataset vertex_fill (\<lambda>_. True) sample_coco ''in'' ''out'' = Inr st" ..
  have mem: "(3, ?anns) \<in> set (image_annotations (annotations sample_coco))"
    by (simp add: sample_index)
  have multi: "1 < card (category_id ` set ?anns)" by simp
  from assigned_iff_single_category [OF st mem] multi
  have "assigned_class (category_map (categories sample_coco)) ?anns = None" by blast
  moreover have "image_effects vertex_fill (\<lambda>_. True) sample_coco ''in'' ''out'' (3, ?anns) =
      [Print ''Skipping image c.jpg - multiple classes detected'']"
    by code_simp
  ultimately show ?thesis using st mem multi by simp
qed

text \<open>
  C3. In a run that completes, the image records whose id is not a key of the annotation
  index are the records that no annotation refers to. The first loop gives each of them,
  once, one copy from the images directory into the clean directory and one notice, and
  no mask; no entry of the index, which the second loop works on, has the id of such a
  record. The count \<^verbatim>\<open>clean\<close> is the number of these records plus the number of index
  entries assigned to a category named \<^verbatim>\<open>clean\<close>.
\<close>

theorem unlabeled_image_moved_once:
  assumes run: "process_coco_dataset c p coco idir odir = Inr st"
  shows "trace st =
           MakeDirs (path_join odir ''clean'') #
           concat (map (unlabeled_effects idir (path_join odir ''clean'')) (unlabeled_images coco)) @
           concat (map (image_effects c p coco idir odir) (image_annotations (annotations coco))) \<and>
         unlabeled_images coco =
           filter (\<lambda>img. img_id img \<notin> image_id ` set (annotations coco)) (images coco) \<and>
         (\<forall>img \<in> set (unlabeled_images coco).
            unlabeled_effects idir (path_join odir ''clean'') img =
              [Copy2 (path_join idir (file_name img))
                 (path_join (path_join odir ''clean'') (file_name img)),
               Print (''Moved unlabeled image '' @ file_name img @ '' to clean directory'')] \<and>
            p (path_join idir (file_name img)) \<and>
            (\<forall>e \<in> set (image_annotations (annotations coco)). fst e \<noteq> img_id img)) \<and>
         count_of (class_counts st) ''clean'' =
           length (unlabeled_images coco) +
           length (filter
             (\<lambda>e. assigned_class (category_map (categories coco)) (snd e) = Some ''clean'')
             (image_annotations (annotations coco)))"
proof -
  let ?idx = "image_annotations (annotations coco)"
  have keys: "set (map fst ?idx) = image_id ` set (annotations coco)"
    using image_annotations_inv by blast
  then have unl: "unlabeled_images coco =
      filter (\<lambda>img. img_id img \<notin> image_id ` set (annotations coco)) (images coco)"
    by (simp add: unlabeled_images_def)
  from run_Inr [OF run] obtain st1 where
    l1: "for_each (move_unlabeled p idir (path_join odir ''clean'') ?idx) (images coco)
           \<lparr>class_counts = Map.empty, trace = [MakeDirs (path_join odir ''clean'')]\<rparr> = Inr st1"
    by blast
  have pres: "p (path_join idir (file_name img))" if "img \<in> set (unlabeled_images coco)" for img
  proof -
    from that have m: "img \<in> set (images coco)" and u: "img_id img \<notin> set (map fst ?idx)"
      by (simp_all add: unlabeled_images_def)
    from for_each_member [OF l1 m] obtain s s' where
      "move_unlabeled p idir (path_join odir ''clean'') ?idx s img = Inr s'" by blast
    with u show ?thesis by (simp add: move_unlabeled_eq split: if_splits)
  qed
  have away: "fst e \<noteq> img_id img"
    if "img \<in> set (unlabeled_images coco)" "e \<in> set ?idx" for img e
  proof -
    from that(1) have "img_id img \<notin> fst ` set ?idx" by (simp add: unlabeled_images_def)
    with that(2) show ?thesis by (metis imageI)
  qed
  from run_summary [OF run, of "''clean''"] unl pres away show ?thesis
    by (simp add: unlabeled_effects_def)
qed

theorem unlabeled_image_moved_once_witness:
  "\<not> isl (process_coco_dataset vertex_fill (\<lambda>_. True) sample_coco ''in'' ''out'') \<and>
   unlabeled_images sample_coco =
     [\<lparr>img_id = 2, file_name = ''b.jpg'', height = 1, width = 1\<rparr>] \<and>
   map_sum (\<lambda>e. e) (\<lambda>st. take 3 (trace st))
     (process_coco_dataset vertex_fill (\<lambda>_. True) sample_coco ''in'' ''out'') =
     Inr [MakeDirs ''out/clean'', Copy2 ''in/b.jpg'' ''out/clean/b.jpg'',
          Print ''Moved unlabeled image b.jpg to clean directory''] \<and>
   map_sum (\<lambda>e. e) (\<lambda>st. count_of (class_counts st) ''clean'')
     (process_coco_dataset vertex_fill (\<lambda>_. True) sample_coco ''in'' ''out'') = Inr 2"
proof -
  from sample_run obtain st where
    st: "process_coco_dataset vertex_fill (\<lambda>_. True) sample_coco ''in'' ''out'' = Inr st" ..
  have u: "unlabeled_images sample_coco =
      [\<lparr>img_id = 2, file_name = ''b.jpg'', height = 1, width = 1\<rparr>]"
    by code_simp
  have n: "length (filter
      (\<lambda>e. assigned_class (category_map (categories sample_coco)) (snd e) = Some ''clean'')
      (image_annotations (annotations sample_coco))) = 1"
    by code_simp
  have j: "path_join ''out'' ''clean'' = ''out/clean''"
    "path_join ''in'' ''b.jpg'' = ''in/b.jpg''"
    "path_join ''out/clean'' ''b.jpg'' = ''out/clean/b.jpg''"
    by (simp_all add: path_join_def)
  from unlabeled_image_moved_once [OF st] u n j
  have "take 3 (trace st) =
      [MakeDirs ''out/clean'', Copy2 ''in/b.jpg'' ''out/clean/b.jpg'',
       Print ''Moved unlabeled image b.jpg to clean directory''] \<and>
    count_of (class_counts st) ''clean'' = 2"
    by (simp add: unlabeled_effects_def)
  with st u show ?thesis by simp
qed

text \<open>
  C9. In a run that completes, the count of a class is the number of index entries
  assigned to it, plus, for \<^verbatim>\<open>clean\<close>, the number of unlabeled image records. The index
  has one entry for each image id, however many annotations and polygons the image has,
  and one pass of the loop body over an entry adds exactly one to the count of the class
  the entry is assigned to and nothing to any other count.
\<close>

theorem class_count_is_image_count:
  assumes run: "process_coco_dataset c p coco idir odir = Inr st"
  shows "count_of (class_counts st) nm =
           (if nm = ''clean'' then length (unlabeled_images coco) else 0) +
           length (filter (\<lambda>e. assigned_class (category_map (categories coco)) (snd e) = Some nm)
                     (image_annotations (annotations coco))) \<and>
         distinct (map fst (image_annotations (annotations coco))) \<and>
         (\<forall>e \<in> set (image_annotations (annotations coco)).
            snd e = filter (\<lambda>a. image_id a = fst e) (annotations coco) \<and>
            (\<forall>s s'. process_image c p (image_id_to_file (images coco))
                      (image_id_to_size (images coco)) (category_map (categories coco))
                      idir odir s e = Inr s' \<longrightarrow>
               count_of (class_counts s') nm = count_of (class_counts s) nm +
                 (if assigned_class (category_map (categories coco)) (snd e) = Some nm
                  then 1 else 0)))"
proof -
  have step: "count_of (class_counts s') nm = count_of (class_counts s) nm +
                 (if assigned_class (category_map (categories coco)) (snd e) = Some nm
                  then 1 else 0)"
    if "process_image c p (image_id_to_file (images coco))
          (image_id_to_size (images coco)) (category_map (categories coco))
          idir odir s e = Inr s'" for s s' e
    using process_image_step [OF that] by (auto simp: count_of_incr split: option.splits)
  have ent: "snd e = filter (\<lambda>a. image_id a = fst e) (annotations coco)"
    if "e \<in> set (image_annotations (annotations coco))" for e
    using that image_annotations_inv [of "annotations coco"] by (cases e) auto
  from run_summary [OF run, of nm] image_annotations_inv [of "annotations coco"] step ent
  show ?thesis by blast
qed

theorem class_count_is_image_count_witness:
  "map_sum (\<lambda>e. e) (\<lambda>st. count_of (class_counts st) ''cat'')
     (process_coco_dataset vertex_fill (\<lambda>_. True) sample_coco ''in'' ''out'') = Inr 1 \<and>
   length (filter (\<lambda>a. image_id a = 1) (annotations sample_coco)) = 2 \<and>
   length (filter
     (\<lambda>e. assigned_class (category_map (categories sample_coco)) (snd e) = Some ''cat'')
     (image_annotations (annotations sample_coco))) = 1"
proof -
  from sample_run obtain st where
    st: "process_coco_dataset vertex_fill (\<lambda>_. True) sample_coco ''in'' ''out'' = Inr st" ..
  have n: "length (filter
      (\<lambda>e. assigned_class (category_map (categories sample_coco)) (snd e) = Some ''cat'')
      (image_annotations (annotations sample_coco))) = 1"
    by code_simp
  have a: "length (filter (\<lambda>a. image_id a = 1) (annotations sample_coco)) = 2"
    by (simp add: sample_coco_def)
  from class_count_is_image_count [OF st, of "''cat''"] n
  have "count_of (class_counts st) ''cat'' = 1" by simp
  with st n a show ?thesis by simp
qed

text \<open>
  C10. In a run that completes with an index entry assigned to a category named
  \<^verbatim>\<open>clean\<close>: the count \<^verbatim>\<open>clean\<close> is the number of unlabeled image records plus the
  number of index entries assigned to a category of that name. The effects of the entry
  use the directory \<^verbatim>\<open>path_join output_base_dir ''clean''\<close>, into which the unlabeled
  images are copied, as its class directory; and for a file name that does not start
  with a slash the three destinations (unlabeled copy, image copy, mask) are paths that
  begin with that directory.
\<close>

theorem clean_category_shares_count_and_directory:
  assumes run: "process_coco_dataset c p coco idir odir = Inr st"
    and e: "(k, anns) \<in> set (image_annotations (annotations coco))"
    and cl: "assigned_class (category_map (categories coco)) anns = Some ''clean''"
  shows "count_of (class_counts st) ''clean'' =
           length (unlabeled_images coco) +
           length (filter
             (\<lambda>e. assigned_class (category_map (categories coco)) (snd e) = Some ''clean'')
             (image_annotations (annotations coco))) \<and>
         (\<exists>fn m. image_effects c p coco idir odir (k, anns) =
            [MakeDirs (path_join (path_join odir ''clean'') ''images''),
             MakeDirs (path_join (path_join odir ''clean'') ''masks''),
             Copy2 (path_join idir fn)
               (path_join (path_join (path_join odir ''clean'') ''images'') fn),
             ImWrite
               (path_join (path_join (path_join odir ''clean'') ''masks'')
                  (splitext_root fn @ ''.png''))
               (times255 m),
             Print (''Processed '' @ fn @ '' for class clean'')]) \<and>
         trace st =
           MakeDirs (path_join odir ''clean'') #
           concat (map (\<lambda>img.
               [Copy2 (path_join idir (file_name img))
                  (path_join (path_join odir ''clean'') (file_name img)),
                Print (''Moved unlabeled image '' @ file_name img @ '' to clean directory'')])
             (unlabeled_images coco)) @
           concat (map (image_effects c p coco idir odir) (image_annotations (annotations coco))) \<and>
         (\<forall>fn. fn = [] \<or> hd fn \<noteq> CHR ''/'' \<longrightarrow>
            (\<exists>r. path_join (path_join odir ''clean'') fn = path_join odir ''clean'' @ r) \<and>
            (\<exists>r. path_join (path_join (path_join odir ''clean'') ''images'') fn =
                    path_join odir ''clean'' @ r) \<and>
            (\<exists>r. path_join (path_join (path_join odir ''clean'') ''masks'')
                      (splitext_root fn @ ''.png'') = path_join odir ''clean'' @ r))"
proof -
  from run_entry [OF run e] obtain s s' where
    "process_image c p (image_id_to_file (images coco)) (image_id_to_size (images coco))
       (category_map (categories coco)) idir odir s (k, anns) = Inr s'" by blast
  from entry_effects [OF this] cl obtain fn m where
    "image_effects c p coco idir odir (k, anns) = assign_effects idir odir ''clean'' fn m"
    by auto
  then have eff: "\<exists>fn m. image_effects c p coco idir odir (k, anns) =
            [MakeDirs (path_join (path_join odir ''clean'') ''images''),
             MakeDirs (path_join (path_join odir ''clean'') ''masks''),
             Copy2 (path_join idir fn)
               (path_join (path_join (path_join odir ''clean'') ''images'') fn),
             ImWrite
               (path_join (path_join (path_join odir ''clean'') ''masks'')
                  (splitext_root fn @ ''.png''))
               (times255 m),
             Print (''Processed '' @ fn @ '' for class clean'')]"
    unfolding assign_effects_def by force
  have un: "unlabeled_effects idir (path_join odir ''clean'') =
      (\<lambda>img. [Copy2 (path_join idir (file_name img))
                  (path_join (path_join odir ''clean'') (file_name img)),
                Print (''Moved unlabeled image '' @ file_name img @ '' to clean directory'')])"
    by (simp add: fun_eq_iff unlabeled_effects_def)
  from run_summary [OF run, of "''clean''"] eff class_paths_under [of _ "path_join odir ''clean''"]
  show ?thesis unfolding un by simp
qed

theorem clean_category_shares_count_and_directory_witness:
  "(4, [\<lparr>image_id = 4, category_id = 2, segmentation = [[0, 0, 0, 0]]\<rparr>])
     \<in> set (image_annotations (annotations sample_coco)) \<and>
   assigned_class (category_map (categories sample_coco))
     [\<lparr>image_id = 4, category_id = 2, segmentation = [[0, 0, 0, 0]]\<rparr>] = Some ''clean'' \<and>
   length (unlabeled_images sample_coco) = 1 \<and>
   map_sum (\<lambda>e. e) (\<lambda>st. count_of (class_counts st) ''clean'')
     (process_coco_dataset vertex_fill (\<lambda>_. True) sample_coco ''in'' ''out'') = Inr 2 \<and>
   image_effects vertex_fill (\<lambda>_. True) sample_coco ''in'' ''out''
     (4, [\<lparr>image_id = 4, category_id = 2, segmentation = [[0, 0, 0, 0]]\<rparr>]) =
     [MakeDirs ''out/clean/images'', MakeDirs ''out/clean/masks'',
      Copy2 ''in/d.jpg'' ''out/clean/images/d.jpg'',
      ImWrite ''out/clean/masks/d.png'' [[255]],
      Print ''Processed d.jpg for class clean'']"
proof -
  let ?anns = "[\<lparr>image_id = 4, category_id = 2, segmentation = [[0, 0, 0, 0]]\<rparr>]"
  from sample_run obtain st where
    st: "process_coco_dataset vertex_fill (\<lambda>_. True) sample_coco ''in'' ''out'' = Inr st" ..
  have mem: "(4, ?anns) \<in> set (image_annotations (annotations sample_coco))"
    by (simp add: sample_index)
  have cl: "assigned_class (category_map (categories sample_coco)) ?anns = Some ''clean''"
    by code_simp
  have u: "length (unlabeled_images sample_coco) = 1" by code_simp
  have n: "length (filter
      (\<lambda>e. assigned_class (category_map (categories sample_coco)) (snd e) = Some ''clean'')
      (image_annotations (annotations sample_coco))) = 1"
    by code_simp
  from clean_category_shares_count_and_directory [OF st mem cl] u n
  have "count_of (class_counts st) ''clean'' = 2" by simp
  moreover have "image_effects vertex_fill (\<lambda>_. True) sample_coco ''in'' ''out'' (4, ?anns) =
     [MakeDirs ''out/clean/images'', MakeDirs ''out/clean/masks'',
      Copy2 ''in/d.jpg'' ''out/clean/images/d.jpg'',
      ImWrite ''out/clean/masks/d.png'' [[255]],
      Print ''Processed d.jpg for class clean'']"
    by code_simp
  ultimately show ?thesis using st mem cl u by simp
qed

text \<open>
  C5. Take an index entry whose annotations carry the single category id \<open>cid\<close>, and no
  category record with that id. The loop body raises \<open>KeyError\<close> on the entry in every
  state, the run raises an error instead of returning counts, and it raises this
  \<open>KeyError\<close> when the loops have got as far as the entry. The multi-class skip differs:
  on an entry of two or more category ids, of a known image, the body raises nothing and
  returns the state with the skip notice added.
\<close>

theorem dangling_category_is_fatal:
  assumes e: "(k, anns) \<in> set (image_annotations (annotations coco))"
    and single: "category_id ` set anns = {cid}"
    and dangling: "cid \<notin> cat_id ` set (categories coco)"
  shows "(\<forall>s. process_image c p (image_id_to_file (images coco))
               (image_id_to_size (images coco)) (category_map (categories coco)) idir odir
               s (k, anns) = Inl KeyError) \<and>
         isl (process_coco_dataset c p coco idir odir) \<and>
         (\<forall>st1 pre post s.
            for_each (move_unlabeled p idir (path_join odir ''clean'')
                (image_annotations (annotations coco))) (images coco)
              \<lparr>class_counts = Map.empty, trace = [MakeDirs (path_join odir ''clean'')]\<rparr> = Inr st1 \<and>
            image_annotations (annotations coco) = pre @ (k, anns) # post \<and>
            for_each (process_image c p (image_id_to_file (images coco))
                (image_id_to_size (images coco)) (category_map (categories coco)) idir odir)
              pre st1 = Inr s \<longrightarrow>
            process_coco_dataset c p coco idir odir = Inl KeyError) \<and>
         (\<forall>s k' anns' fn.
            1 < card (category_id ` set anns') \<and> image_id_to_file (images coco) k' = Some fn \<longrightarrow>
            process_image c p (image_id_to_file (images coco))
               (image_id_to_size (images coco)) (category_map (categories coco)) idir odir
               s (k', anns') =
              Inr (s\<lparr>trace := trace s @
                     [Print (''Skipping image '' @ fn @ '' - multiple classes detected'')]\<rparr>))"
proof -
  let ?body = "process_image c p (image_id_to_file (images coco))
               (image_id_to_size (images coco)) (category_map (categories coco)) idir odir"
  have none: "category_map (categories coco) cid = None"
    using dangling by (simp add: category_map_None)
  have step: "?body s (k, anns) = Inl KeyError" for s
    using process_image_dangling_category
      [where cm = "category_map (categories coco)", OF single_category_ids [OF single] none] .
  have fail: "isl (process_coco_dataset c p coco idir odir)"
  proof (cases "process_coco_dataset c p coco idir odir")
    case (Inl err)
    then show ?thesis by simp
  next
    case (Inr st)
    from run_entry [OF Inr e] step show ?thesis by simp
  qed
  have skip: "?body s (k', anns') =
      Inr (s\<lparr>trace := trace s @
             [Print (''Skipping image '' @ fn @ '' - multiple classes detected'')]\<rparr>)"
    if "1 < card (category_id ` set anns')" "image_id_to_file (images coco) k' = Some fn"
    for s k' anns' fn
    using that process_image_skip [of anns' c p "image_id_to_file (images coco)"]
    by (simp add: category_ids_card skip_effects_def)
  from step fail skip run_failure [where e = "(k, anns)" and err = KeyError and c = c and p = p]
  show ?thesis by blast
qed

theorem dangling_category_is_fatal_witness:
  "(1, [\<lparr>image_id = 1, category_id = 7, segmentation = [[0, 0]]\<rparr>])
     \<in> set (image_annotations (annotations dangling_coco)) \<and>
   category_id ` set [\<lparr>image_id = 1, category_id = 7, segmentation = [[0, 0]]\<rparr>] = {7} \<and>
   7 \<notin> cat_id ` set (categories dangling_coco) \<and>
   isl (process_coco_dataset vertex_fill (\<lambda>_. True) dangling_coco ''in'' ''out'') \<and>
   process_image vertex_fill (\<lambda>_. True) (image_id_to_file (images dangling_coco))
     (image_id_to_size (images dangling_coco)) (category_map (categories dangling_coco))
     ''in'' ''out'' \<lparr>class_counts = Map.empty, trace = []\<rparr>
     (1, [\<lparr>image_id = 1, category_id = 7, segmentation = [[0, 0]]\<rparr>]) = Inl KeyError"
proof -
  let ?anns = "[\<lparr>image_id = 1, category_id = 7, segmentation = [[0, 0]]\<rparr>]"
  have mem: "(1, ?anns) \<in> set (image_annotations (annotations dangling_coco))"
    by (simp add: dangling_coco_def image_annotations_def add_annotation_def)
  have single: "category_id ` set ?anns = {7}" by simp
  have dangling: "7 \<notin> cat_id ` set (categories dangling_coco)"
    by (simp add: dangling_coco_def)
  from dangling_category_is_fatal [OF mem single dangling, of vertex_fill "\<lambda>_. True" "''in''" "''out''"]
    mem single dangling
  show ?thesis by blast
qed

text \<open>
  C6, as the script behaves. Building the lookup tables and the annotation index raises
  nothing. Of several image or category records with one id, the last supplies the table
  entry. Every annotation is filed in the index under its image id, whether or not an
  image record has that id and whatever its category id is; the index has one entry for
  each image id. An image id without an image record raises \<open>KeyError\<close> only later, in
  the loop body; an entry of two or more category ids, of a known image, is skipped
  without an error whether its category ids have records or not.
\<close>

theorem index_keeps_duplicate_and_dangling_ids:
  "image_id_to_file imgs k = map_option file_name (find (\<lambda>i. img_id i = k) (rev imgs)) \<and>
   image_id_to_size imgs k =
     map_option (\<lambda>i. (height i, width i)) (find (\<lambda>i. img_id i = k) (rev imgs)) \<and>
   category_map cats k = map_option name (find (\<lambda>c. cat_id c = k) (rev cats)) \<and>
   map_of (image_annotations anns) k =
     (if k \<in> image_id ` set anns then Some (filter (\<lambda>a. image_id a = k) anns) else None) \<and>
   distinct (map fst (image_annotations anns)) \<and>
   (k \<notin> img_id ` set imgs \<longrightarrow>
      (\<forall>st a. process_image c p (image_id_to_file imgs) (image_id_to_size imgs)
                (category_map cats) idir odir st (k, a) = Inl KeyError)) \<and>
   (\<forall>st a fn.
      1 < card (category_id ` set a) \<and> image_id_to_file imgs k = Some fn \<longrightarrow>
      process_image c p (image_id_to_file imgs) (image_id_to_size imgs)
        (category_map cats) idir odir st (k, a) =
      Inr (st\<lparr>trace := trace st @
             [Print (''Skipping image '' @ fn @ '' - multiple classes detected'')]\<rparr>))"
proof -
  have dangling: "process_image c p (image_id_to_file imgs) (image_id_to_size imgs)
                (category_map cats) idir odir st (k, a) = Inl KeyError"
    if "k \<notin> img_id ` set imgs" for st a
  proof -
    from that have "image_id_to_file imgs k = None" by (simp add: image_id_to_file_None)
    then show ?thesis by (rule process_image_dangling_image)
  qed
  have skip: "process_image c p (image_id_to_file imgs) (image_id_to_size imgs)
        (category_map cats) idir odir st (k, a) =
      Inr (st\<lparr>trace := trace st @
             [Print (''Skipping image '' @ fn @ '' - multiple classes detected'')]\<rparr>)"
    if "1 < card (category_id ` set a)" "image_id_to_file imgs k = Some fn" for st a fn
    using that process_image_skip [of a c p "image_id_to_file imgs"]
    by (simp add: category_ids_card skip_effects_def)
  from image_id_to_file_last [of imgs k] image_id_to_size_last [of imgs k]
    category_map_last [of cats k] image_annotations_lookup [of anns k]
    image_annotations_inv [of anns] dangling skip
  show ?thesis by blast
qed

theorem index_keeps_duplicate_and_dangling_ids_witness:
  "image_id_to_file (images duplicate_coco) 1 = Some ''b.jpg'' \<and>
   category_map (categories duplicate_coco) 1 = Some ''dog'' \<and>
   map_of (image_annotations (annotations duplicate_coco)) 2 =
     Some [\<lparr>image_id = 2, category_id = 1, segmentation = []\<rparr>,
           \<lparr>image_id = 2, category_id = 7, segmentation = []\<rparr>] \<and>
   process_image vertex_fill (\<lambda>_. True) (image_id_to_file (images duplicate_coco))
     (image_id_to_size (images duplicate_coco)) (category_map (categories duplicate_coco))
     ''in'' ''out'' \<lparr>class_counts = Map.empty, trace = []\<rparr> (9, []) = Inl KeyError"
proof -
  note t = index_keeps_duplicate_and_dangling_ids [of "images duplicate_coco" _
      "categories duplicate_coco" "annotations duplicate_coco" vertex_fill "\<lambda>_. True"
      "''in''" "''out''"]
  have "image_id_to_file (images duplicate_coco) 1 = Some ''b.jpg''"
    using t [of 1] by (simp add: duplicate_coco_def)
  moreover have "category_map (categories duplicate_coco) 1 = Some ''dog''"
    using t [of 1] by (simp add: duplicate_coco_def)
  moreover have "map_of (image_annotations (annotations duplicate_coco)) 2 =
     Some [\<lparr>image_id = 2, category_id = 1, segmentation = []\<rparr>,
           \<lparr>image_id = 2, category_id = 7, segmentation = []\<rparr>]"
    using t [of 2] by (simp add: duplicate_coco_def)
  moreover have "9 \<notin> img_id ` set (images duplicate_coco)" by (simp add: duplicate_coco_def)
  with t [of 9] have "process_image vertex_fill (\<lambda>_. True) (image_id_to_file (images duplicate_coco))
     (image_id_to_size (images duplicate_coco)) (category_map (categories duplicate_coco))
     ''in'' ''out'' \<lparr>class_counts = Map.empty, trace = []\<rparr> (9, []) = Inl KeyError"
    by blast
  ultimately show ?thesis by simp
qed

theorem duplicate_and_dangling_ids_counterexample:
  "map img_id (images duplicate_coco) = [1, 1, 2] \<and>
   map cat_id (categories duplicate_coco) = [1, 1] \<and>
   map category_id (annotations duplicate_coco) = [1, 1, 7] \<and>
   image_annotations (annotations duplicate_coco) =
     [(1, [\<lparr>image_id = 1, category_id = 1, segmentation = [[0, 0]]\<rparr>]),
      (2, [\<lparr>image_id = 2, category_id = 1, segmentation = []\<rparr>,
           \<lparr>image_id = 2, category_id = 7, segmentation = []\<rparr>])] \<and>
   image_annotations [\<lparr>image_id = 9, category_id = 1, segmentation = []\<rparr>] =
     [(9, [\<lparr>image_id = 9, category_id = 1, segmentation = []\<rparr>])] \<and>
   map_sum (\<lambda>e. e) trace
     (process_coco_dataset vertex_fill (\<lambda>_. True) duplicate_coco ''in'' ''out'') =
     Inr [MakeDirs ''out/clean'', MakeDirs ''out/dog/images'', MakeDirs ''out/dog/masks'',
          Copy2 ''in/b.jpg'' ''out/dog/images/b.jpg'',
          ImWrite ''out/dog/masks/b.png'' [[255]],
          Print ''Processed b.jpg for class dog'',
          Print ''Skipping image c.jpg - multiple classes detected'']"
  by code_simp

text \<open>
  C8. An exception raised in a loop body ends the run: when the first loop raises, or
  when the second loop has come to an index entry on which the body raises, the run
  returns that exception and no counts. When the run returns counts, every index entry
  was either skipped, with the notice as its only effect and no class, or completed, with
  its directories, image copy, mask and notice in the trace and one class; and each
  count is the number of entries completed for the class, plus the moved unlabeled
  records for \<^verbatim>\<open>clean\<close>.
\<close>

theorem failure_ends_run_without_counts:
  "(\<forall>err.
      for_each (move_unlabeled p idir (path_join odir ''clean'')
          (image_annotations (annotations coco))) (images coco)
        \<lparr>class_counts = Map.empty, trace = [MakeDirs (path_join odir ''clean'')]\<rparr> = Inl err \<longrightarrow>
      process_coco_dataset c p coco idir odir = Inl err) \<and>
   (\<forall>st1 pre e post s err.
      for_each (move_unlabeled p idir (path_join odir ''clean'')
          (image_annotations (annotations coco))) (images coco)
        \<lparr>class_counts = Map.empty, trace = [MakeDirs (path_join odir ''clean'')]\<rparr> = Inr st1 \<and>
      image_annotations (annotations coco) = pre @ e # post \<and>
      for_each (process_image c p (image_id_to_file (images coco))
          (image_id_to_size (images coco)) (category_map (categories coco)) idir odir)
        pre st1 = Inr s \<and>
      process_image c p (image_id_to_file (images coco))
          (image_id_to_size (images coco)) (category_map (categories coco)) idir odir
        s e = Inl err \<longrightarrow>
      process_coco_dataset c p coco idir odir = Inl err) \<and>
   (\<forall>st. process_coco_dataset c p coco idir odir = Inr st \<longrightarrow>
      (\<forall>e \<in> set (image_annotations (annotations coco)).
         (assigned_class (category_map (categories coco)) (snd e) = None \<and>
          (\<exists>fn. image_effects c p coco idir odir e = skip_effects fn)) \<or>
         (\<exists>nm fn m.
            assigned_class (category_map (categories coco)) (snd e) = Some nm \<and>
            image_effects c p coco idir odir e = assign_effects idir odir nm fn m)) \<and>
      trace st =
        MakeDirs (path_join odir ''clean'') #
        concat (map (unlabeled_effects idir (path_join odir ''clean'')) (unlabeled_images coco)) @
        concat (map (image_effects c p coco idir odir) (image_annotations (annotations coco))) \<and>
      (\<forall>nm. count_of (class_counts st) nm =
         (if nm = ''clean'' then length (unlabeled_images coco) else 0) +
         length (filter (\<lambda>e. assigned_class (category_map (categories coco)) (snd e) = Some nm)
                   (image_annotations (annotations coco)))))"
proof -
  have entries: "(assigned_class (category_map (categories coco)) (snd e) = None \<and>
          (\<exists>fn. image_effects c p coco idir odir e = skip_effects fn)) \<or>
         (\<exists>nm fn m.
            assigned_class (category_map (categories coco)) (snd e) = Some nm \<and>
            image_effects c p coco idir odir e = assign_effects idir odir nm fn m)"
    if run: "process_coco_dataset c p coco idir odir = Inr st"
      and e: "e \<in> set (image_annotations (annotations coco))" for st e
  proof -
    obtain k anns where ka: "e = (k, anns)" by (cases e)
    from run_entry [OF run e] ka obtain s s' where
      "process_image c p (image_id_to_file (images coco)) (image_id_to_size (images coco))
         (category_map (categories coco)) idir odir s (k, anns) = Inr s'" by blast
    from entry_effects [OF this] ka show ?thesis by auto
  qed
  show ?thesis
    using run_failure_first [of p idir odir coco _ c]
      run_failure [of p idir odir coco _ _ _ _ c]
      entries run_summary [of c p coco idir odir]
    by blast
qed

theorem failure_ends_run_without_counts_witness:
  "add_segmentation vertex_fill 1 1 [[0]] [0, 0, 1] = Inl ValueError \<and>
   process_coco_dataset vertex_fill (\<lambda>_. True) odd_coco ''in'' ''out'' = Inl ValueError"
proof -
  let ?st0 = "\<lparr>class_counts = Map.empty, trace = [MakeDirs (path_join ''out'' ''clean'')]\<rparr>"
  let ?e = "(1, [\<lparr>image_id = 1, category_id = 1, segmentation = [[0, 0, 1]]\<rparr>])"
  let ?body = "process_image vertex_fill (\<lambda>_. True) (image_id_to_file (images odd_coco))
          (image_id_to_size (images odd_coco)) (category_map (categories odd_coco)) ''in'' ''out''"
  have idx: "image_annotations (annotations odd_coco) = [] @ ?e # []"
    by (simp add: odd_coco_def image_annotations_def add_annotation_def)
  have l1: "for_each (move_unlabeled (\<lambda>_. True) ''in'' (path_join ''out'' ''clean'')
          (image_annotations (annotations odd_coco))) (images odd_coco) ?st0 = Inr ?st0"
    unfolding idx by (simp add: odd_coco_def move_unlabeled_eq)
  have pre: "for_each ?body [] ?st0 = Inr ?st0" by simp
  have seg: "add_segmentation vertex_fill 1 1 [[0]] [0, 0, 1] = Inl ValueError"
    by (simp add: add_segmentation_def create_binary_mask_eq)
  have "map_sum (\<lambda>e. e) (\<lambda>_. ()) (?body ?st0 ?e) = Inl ValueError" by code_simp
  then have step: "?body ?st0 ?e = Inl ValueError" by (cases "?body ?st0 ?e") auto
  from failure_ends_run_without_counts [of "\<lambda>_. True" "''in''" "''out''" odd_coco vertex_fill]
    l1 idx pre step
  have "process_coco_dataset vertex_fill (\<lambda>_. True) odd_coco ''in'' ''out'' = Inl ValueError"
    by blast
  with seg show ?thesis by simp
qed

end
